theory Spec2Isabelle
  imports Complex_Main "HOL-Library.Multiset" "HOL-Library.Char_ord" "HOL-Library.List_Lexorder"
    "HOL-Library.Product_Lexorder"
begin

section \<open>Strings\<close>

text \<open>
  Python strings are modelled as \<^typ>\<open>string\<close>, read as sequences of code points below 256
  (Latin-1). The capital letters there are \<open>A\<close>..\<open>Z\<close> and the code points 192 to 222 other
  than the multiplication sign 215; the small letter of each lies 32 code points above it.
  \<open>lower_chr\<close> is what \<open>str.lower\<close> does to one character, and two characters are equal under
  \<open>re.IGNORECASE\<close> when \<open>lower_chr\<close> maps them to the same character.
\<close>

definition lower_chr :: "char \<Rightarrow> char" where
  "lower_chr c =
     (let n = (of_char c :: nat) in
      if (65 \<le> n \<and> n \<le> 90) \<or> (192 \<le> n \<and> n \<le> 222 \<and> n \<noteq> 215) then char_of (n + 32) else c)"

definition lower :: "string \<Rightarrow> string" where
  "lower s = map lower_chr s"

text \<open>
  \<open>str.upper\<close> on one character. The capital of the sharp s (223) is the two letters \<open>SS\<close>; the
  capitals of the micro sign (181) and of the y with diaeresis (255) lie beyond code point 255,
  where no text of this model reaches: \<open>None\<close>.
\<close>

definition upper_chr :: "char \<Rightarrow> string option" where
  "upper_chr c =
     (let n = (of_char c :: nat) in
      if (97 \<le> n \<and> n \<le> 122) \<or> (224 \<le> n \<and> n \<le> 254 \<and> n \<noteq> 247) then Some [char_of (n - 32)]
      else if n = 223 then Some ''SS''
      else if n = 181 \<or> n = 255 then None
      else Some [c])"

text \<open>\<open>s.upper()\<close>, or \<open>None\<close> when the result has a code point beyond 255.\<close>

fun upper :: "string \<Rightarrow> string option" where
  "upper [] = Some []"
| "upper (c # cs) =
     (case upper_chr c of
        None \<Rightarrow> None
      | Some u \<Rightarrow> (case upper cs of None \<Rightarrow> None | Some v \<Rightarrow> Some (u @ v)))"

definition newline :: char where
  "newline = CHR 0x0A"

text \<open>The characters that \<open>\s\<close> matches in a Python \<open>str\<close> pattern, below code point 256.\<close>

definition is_space :: "char \<Rightarrow> bool" where
  "is_space c = ((of_char c :: nat) \<in> {9, 10, 11, 12, 13, 28, 29, 30, 31, 32, 133, 160})"

definition is_digit :: "char \<Rightarrow> bool" where
  "is_digit c = (let n = (of_char c :: nat) in 48 \<le> n \<and> n \<le> 57)"

section \<open>Errors\<close>

text \<open>
  The exceptions the source can raise, as values. \<open>Unmodelled\<close> is raised by no Python path: it
  marks the inputs on which this model does not say what Python does, namely a text that,
  interpolated into a regular expression, would be read as an operator other than the dot,
  and a country code whose upper case has a code point beyond 255.
\<close>

datatype error =
    KeyError | IndexError | ValueError | TypeError | AttributeError
  | DownloadError | BadZipFile | HDXError | Unmodelled

section \<open>The regular expressions of the source\<close>

text \<open>
  The source matches names with \<open>re.match(pattern, text, re.IGNORECASE)\<close>. Its patterns use
  literal characters, \<open>.\<close>, \<open>.*\<close>, optional groups \<open>(...)?\<close> and \<open>\s\<close>. \<open>Dot\<close> does not match a
  line break (no \<open>re.DOTALL\<close>), and a literal matches up to the case of letters.
\<close>

datatype rx = Eps | Dot | Sym char | Ws | Cat rx rx | Opt rx | DotStar

text \<open>
  \<open>rests r s\<close> lists, in the order a backtracking matcher tries them (greedy first), the
  remainders of \<open>s\<close> after a prefix that \<open>r\<close> matches.
\<close>

fun dot_star :: "string \<Rightarrow> string list" where
  "dot_star [] = [[]]"
| "dot_star (c # cs) = (if c \<noteq> newline then dot_star cs @ [c # cs] else [c # cs])"

fun rests :: "rx \<Rightarrow> string \<Rightarrow> string list" where
  "rests Eps s = [s]"
| "rests Dot s = (case s of [] \<Rightarrow> [] | c # cs \<Rightarrow> if c \<noteq> newline then [cs] else [])"
| "rests (Sym a) s = (case s of [] \<Rightarrow> [] | c # cs \<Rightarrow> if lower_chr c = lower_chr a then [cs] else [])"
| "rests Ws s = (case s of [] \<Rightarrow> [] | c # cs \<Rightarrow> if is_space c then [cs] else [])"
| "rests (Cat r1 r2) s = concat (map (rests r2) (rests r1 s))"
| "rests (Opt r) s = rests r s @ [s]"
| "rests DotStar s = dot_star s"

text \<open>\<open>bool(re.match(r, s, re.IGNORECASE))\<close>: some prefix of \<open>s\<close> matches.\<close>

definition re_match :: "rx \<Rightarrow> string \<Rightarrow> bool" where
  "re_match r s = (rests r s \<noteq> [])"

fun seq :: "rx list \<Rightarrow> rx" where
  "seq [] = Eps"
| "seq (r # rs) = Cat r (seq rs)"

definition lit :: "string \<Rightarrow> rx" where
  "lit s = seq (map Sym s)"

text \<open>The characters that a Python pattern reads as operators.\<close>

definition metachars :: "char list" where
  "metachars = ''.^$*+?{}[]|()'' @ [CHR 0x5C]"

definition plain :: "string \<Rightarrow> bool" where
  "plain s = (\<forall>c \<in> set s. c \<notin> set metachars)"

text \<open>
  An interpolated text \<open>{t}\<close> inside a pattern: Python reads each of its dots as the operator
  \<open>.\<close> and each character that is no operator as a literal.
\<close>

definition interpolated :: "string \<Rightarrow> error + rx" where
  "interpolated t =
     (if \<forall>c \<in> set t. c = CHR ''.'' \<or> c \<notin> set metachars
      then Inr (seq (map (\<lambda>c. if c = CHR ''.'' then Dot else Sym c) t))
      else Inl Unmodelled)"

text \<open>\<open>level[-1]\<close>: the last character of the level identifier.\<close>

definition last_chr :: "string \<Rightarrow> error + char" where
  "last_chr level = (case rev level of [] \<Rightarrow> Inl IndexError | c # _ \<Rightarrow> Inr c)"

text \<open>The pattern \<open>.*t.*\<close>.\<close>

definition anywhere :: "rx \<Rightarrow> rx" where
  "anywhere t = seq [DotStar, t, DotStar]"

text \<open>\<open>f".*{resource_name}.*"\<close>\<close>

definition resource_pattern :: "string \<Rightarrow> error + rx" where
  "resource_pattern resource_name =
     (case interpolated resource_name of
        Inl e \<Rightarrow> Inl e
      | Inr t \<Rightarrow> Inr (anywhere t))"

text \<open>\<open>f".*adm(in)?(\s)?(0)?{level[-1]}.*"\<close>, with \<open>t\<close> for the interpolated character.\<close>

definition resource_level_rx :: "rx \<Rightarrow> rx" where
  "resource_level_rx t = seq [DotStar, lit ''adm'', Opt (lit ''in''), Opt Ws, Opt (lit ''0''), t, DotStar]"

definition resource_level_pattern :: "string \<Rightarrow> error + rx" where
  "resource_level_pattern level =
     (case last_chr level of
        Inl e \<Rightarrow> Inl e
      | Inr c \<Rightarrow>
          (case interpolated [c] of
             Inl e \<Rightarrow> Inl e
           | Inr t \<Rightarrow> Inr (resource_level_rx t)))"

text \<open>\<open>f".*admbnda.*adm(in)?(0)?{level[-1]}.*"\<close>, with \<open>t\<close> for the interpolated character.\<close>

definition shapefile_level_rx :: "rx \<Rightarrow> rx" where
  "shapefile_level_rx t =
     seq [DotStar, lit ''admbnda'', DotStar, lit ''adm'', Opt (lit ''in''), Opt (lit ''0''), t, DotStar]"

definition shapefile_level_pattern :: "string \<Rightarrow> error + rx" where
  "shapefile_level_pattern level =
     (case last_chr level of
        Inl e \<Rightarrow> Inl e
      | Inr c \<Rightarrow>
          (case interpolated [c] of
             Inl e \<Rightarrow> Inl e
           | Inr t \<Rightarrow> Inr (shapefile_level_rx t)))"

text \<open>\<open>".*simplified.*"\<close>\<close>

definition simplified_pattern :: rx where
  "simplified_pattern = anywhere (lit ''simplified'')"

section \<open>Resource Resolver\<close>

text \<open>A resource of a dataset: \<open>r["name"]\<close> and the result of \<open>r.get_file_type()\<close>.\<close>

record resource =
  name :: string
  file_type :: "string option"

text \<open>
  \<open>Boundaries.find_resource\<close>. \<open>resource_exceptions\<close> is \<open>self.exceptions["resource"]\<close> and
  \<open>resources\<close> is \<open>dataset.get_resources()\<close>.
\<close>

definition find_resource ::
  "(string \<rightharpoonup> string) \<Rightarrow> string \<Rightarrow> resource list \<Rightarrow> string \<Rightarrow> error + resource list" where
  "find_resource resource_exceptions iso3 resources level =
     (let resource_name = (case resource_exceptions iso3 of Some t \<Rightarrow> t | None \<Rightarrow> ''adm'') in
      case resource_pattern resource_name of
        Inl e \<Rightarrow> Inl e
      | Inr p \<Rightarrow>
          (let boundary_resource =
                 [r \<leftarrow> resources. file_type r = Some ''shp'' \<and> re_match p (name r)] in
           if length boundary_resource > 1 then
             (case resource_level_pattern level of
                Inl e \<Rightarrow> Inl e
              | Inr q \<Rightarrow>
                  (let name_match = map (\<lambda>r. re_match q (name r)) boundary_resource in
                   Inr [boundary_resource ! i. i \<leftarrow> [0..<length boundary_resource], name_match ! i]))
           else Inr boundary_resource))"

section \<open>Shapefile Selector\<close>

text \<open>
  Lines 113 to 119 of \<open>Boundaries.find_shapefile\<close>: among several shapefiles keep those that
  follow the naming convention of the level, unless none does.
\<close>

definition depth_filter :: "string list \<Rightarrow> string \<Rightarrow> error + string list" where
  "depth_filter boundary_shp level =
     (if length boundary_shp > 1 then
        (case shapefile_level_pattern level of
           Inl e \<Rightarrow> Inl e
         | Inr q \<Rightarrow>
             (let name_match = map (\<lambda>b. re_match q b) boundary_shp in
              if (\<exists>m \<in> set name_match. m)
              then Inr [boundary_shp ! i. i \<leftarrow> [0..<length boundary_shp], name_match ! i]
              else Inr boundary_shp))
      else Inr boundary_shp)"

text \<open>Lines 121 to 124: among several remaining shapefiles leave out the simplified ones.\<close>

definition drop_simplified :: "string list \<Rightarrow> string list" where
  "drop_simplified boundary_shp =
     (if length boundary_shp > 1 then
        (let simp_match = map (\<lambda>b. re_match simplified_pattern b) boundary_shp in
         if (\<exists>m \<in> set simp_match. m)
         then [boundary_shp ! i. i \<leftarrow> [0..<length boundary_shp], \<not> simp_match ! i]
         else boundary_shp)
      else boundary_shp)"

text \<open>
  Lines 108 to 130: the choice among the shapefiles found in the archive. \<open>None\<close> is the
  logged failure that makes the caller skip the level.
\<close>

definition pick_shapefile :: "string list \<Rightarrow> string \<Rightarrow> error + string option" where
  "pick_shapefile boundary_shp level =
     (if length boundary_shp = 0 then Inr None
      else
        (case depth_filter boundary_shp level of
           Inl e \<Rightarrow> Inl e
         | Inr shp1 \<Rightarrow>
             (let shp2 = drop_simplified shp1 in
              if length shp2 \<noteq> 1 then Inr None else Inr (Some (shp2 ! 0)))))"

text \<open>
  \<open>Boundaries.find_shapefile\<close>. \<open>download\<close> stands for \<open>resource.download\<close> and \<open>extract\<close> for the
  extraction of the archive into a fresh folder followed by the recursive \<open>glob\<close> for
  \<open>*.shp\<close>. Only \<open>DownloadError\<close> and \<open>BadZipFile\<close> are caught.
\<close>

definition find_shapefile ::
  "(resource \<Rightarrow> error + 'f) \<Rightarrow> ('f \<Rightarrow> error + string list) \<Rightarrow> resource \<Rightarrow> string
     \<Rightarrow> error + string option" where
  "find_shapefile download extract res level =
     (case download res of
        Inl e \<Rightarrow> (if e = DownloadError then Inr None else Inl e)
      | Inr resource_file \<Rightarrow>
          (case extract resource_file of
             Inl e \<Rightarrow> (if e = BadZipFile then Inr None else Inl e)
           | Inr boundary_shp \<Rightarrow> pick_shapefile boundary_shp level))"

section \<open>What the patterns mean\<close>

text \<open>The set of texts a pattern matches in full.\<close>

fun lang :: "rx \<Rightarrow> string set" where
  "lang Eps = {[]}"
| "lang Dot = {[c] | c. c \<noteq> newline}"
| "lang (Sym a) = {[c] | c. lower_chr c = lower_chr a}"
| "lang Ws = {[c] | c. is_space c}"
| "lang (Cat r1 r2) = {u @ v | u v. u \<in> lang r1 \<and> v \<in> lang r2}"
| "lang (Opt r) = insert [] (lang r)"
| "lang DotStar = {u. newline \<notin> set u}"

definition single_line :: "string \<Rightarrow> bool" where
  "single_line s = (newline \<notin> set s)"

text \<open>\<open>s\<close> contains \<open>t\<close>, up to the case of letters.\<close>

definition contains_ci :: "string \<Rightarrow> string \<Rightarrow> bool" where
  "contains_ci t s = (\<exists>pre mid suf. s = pre @ mid @ suf \<and> lower mid = lower t)"

text \<open>
  \<open>s\<close> names the level whose numeral is \<open>d\<close>: \<open>adm\<close> or \<open>admin\<close>, then at most one blank, then
  at most one \<open>0\<close>, then \<open>d\<close>.
\<close>

definition references_level :: "char \<Rightarrow> string \<Rightarrow> bool" where
  "references_level d s =
     (\<exists>pre a w z c suf. s = pre @ a @ w @ z @ [c] @ suf
        \<and> (lower a = ''adm'' \<or> lower a = ''admin'')
        \<and> (w = [] \<or> (\<exists>x. w = [x] \<and> is_space x))
        \<and> (z = [] \<or> z = ''0'')
        \<and> lower_chr c = lower_chr d)"

text \<open>
  The Resource Resolver in the words of the specification: the shapefile archives whose name
  contains the token, narrowed to those naming the level only when several remain.
\<close>

definition resolver_spec :: "string \<Rightarrow> char \<Rightarrow> resource list \<Rightarrow> resource list" where
  "resolver_spec token d resources =
     (let candidates = filter (\<lambda>r. file_type r = Some ''shp'' \<and> contains_ci token (name r)) resources in
      if length candidates > 1 then filter (\<lambda>r. references_level d (name r)) candidates
      else candidates)"

text \<open>
  The Shapefile Selector in the words of the specification, for a naming convention \<open>conv\<close>:
  prefer the files that follow the convention, fall back to all of them when none does, then
  among several leave out those marked simplified; the answer is the file left alone, if any.
\<close>

definition selector_spec :: "(string \<Rightarrow> bool) \<Rightarrow> string list \<Rightarrow> string option" where
  "selector_spec conv shps =
     (let preferred = filter conv shps;
          shp1 = (if length shps > 1 \<and> preferred \<noteq> [] then preferred else shps);
          shp2 = (if length shp1 > 1 then filter (\<lambda>b. \<not> contains_ci ''simplified'' b) shp1 else shp1)
      in case shp2 of [b] \<Rightarrow> Some b | _ \<Rightarrow> None)"

section \<open>Numbers and field names\<close>

definition digit_chr :: "int \<Rightarrow> char" where
  "digit_chr n = char_of (48 + n)"

text \<open>The decimal digits of an integer that is not negative.\<close>

function dec :: "int \<Rightarrow> string" where
  "dec n = (if n < 10 then [digit_chr n] else dec (n div 10) @ [digit_chr (n mod 10)])"
  by pat_completeness auto
termination
  by (relation "measure nat") auto

declare dec.simps [simp del]

text \<open>\<open>str(n)\<close> for a natural number and for an integer.\<close>

definition str_nat :: "nat \<Rightarrow> string" where
  "str_nat n = dec (int n)"

definition str_int :: "int \<Rightarrow> string" where
  "str_int i = (if i < 0 then CHR ''-'' # dec (- i) else dec i)"

text \<open>\<open>int(c)\<close> for a text of one character.\<close>

definition int_chr :: "char \<Rightarrow> error + nat" where
  "int_chr c = (if is_digit c then Inr ((of_char c :: nat) - 48) else Inl ValueError)"

text \<open>\<open>int(level[-1])\<close>\<close>

definition level_depth :: "string \<Rightarrow> error + nat" where
  "level_depth level = (case last_chr level of Inl e \<Rightarrow> Inl e | Inr c \<Rightarrow> int_chr c)"

text \<open>\<open>field.replace("#", s)\<close>\<close>

definition replace_hash :: "string \<Rightarrow> string \<Rightarrow> string" where
  "replace_hash s field = concat (map (\<lambda>c. if c = CHR ''#'' then s else [c]) field)"

text \<open>\<open>f"ADM{l}_PCODE"\<close>, \<open>f"ADM{l}_REF"\<close> and \<open>f"ADM{l}_EN"\<close>\<close>

definition adm_pcode :: "nat \<Rightarrow> string" where
  "adm_pcode l = ''ADM'' @ str_nat l @ ''_PCODE''"

definition adm_ref :: "nat \<Rightarrow> string" where
  "adm_ref l = ''ADM'' @ str_nat l @ ''_REF''"

definition adm_en :: "nat \<Rightarrow> string" where
  "adm_en l = ''ADM'' @ str_nat l @ ''_EN''"

text \<open>The canonical field list that \<open>update_subnational_boundaries\<close> builds for a depth.\<close>

definition canonical_fields :: "nat \<Rightarrow> string list" where
  "canonical_fields d = [''alpha_3'', ''ADM0_REF''] @ concat (map (\<lambda>i. [adm_pcode i, adm_ref i]) [1..<d + 1])"

section \<open>Tabular Geometry Layer\<close>

text \<open>
  A value of a frame: a text, a number (the \<open>int64\<close> and \<open>float64\<close> values, as exact
  rationals), a geometry, or a null (\<open>None\<close>, \<open>NaN\<close>). A column is numeric (\<open>int64\<close> or
  \<open>float64\<close>, what \<open>is_numeric_dtype\<close> accepts), a geometry column, or an object column.
\<close>

datatype 'g cell = Str string | Num rat | Geom 'g | Null

datatype dtype = Numeric | Object | Geometry

text \<open>
  A layer is a \<open>GeoDataFrame\<close>: \<open>columns\<close> lists \<open>df.columns\<close> in order with the type of each
  column, the geometry column \<open>geometry\<close> among them; a record gives the value of each column
  and \<open>Null\<close> elsewhere.
\<close>

record 'g layer =
  columns :: "(string \<times> dtype) list"
  rows :: "(string \<Rightarrow> 'g cell) list"

definition names :: "'g layer \<Rightarrow> string list" where
  "names lyr = map fst (columns lyr)"

text \<open>The attributes of a layer: its columns other than the geometry column.\<close>

definition attributes :: "'g layer \<Rightarrow> string list" where
  "attributes lyr = filter (\<lambda>f. f \<noteq> ''geometry'') (names lyr)"

text \<open>The type of a column after \<open>df[f] = ...\<close>: replaced in place, or added at the end.\<close>

definition assign_dtype :: "string \<Rightarrow> dtype \<Rightarrow> (string \<times> dtype) list \<Rightarrow> (string \<times> dtype) list" where
  "assign_dtype f d cols =
     (if f \<in> set (map fst cols) then map (\<lambda>(n, t). if n = f then (n, d) else (n, t)) cols
      else cols @ [(f, d)])"

text \<open>\<open>df[f] = "text"\<close>\<close>

definition set_scalar :: "string \<Rightarrow> string \<Rightarrow> 'g layer \<Rightarrow> 'g layer" where
  "set_scalar f v lyr =
     \<lparr>columns = assign_dtype f Object (columns lyr), rows = map (\<lambda>r. r(f := Str v)) (rows lyr)\<rparr>"

text \<open>\<open>df[dst] = df[src]\<close>\<close>

definition copy_column :: "string \<Rightarrow> string \<Rightarrow> 'g layer \<Rightarrow> error + 'g layer" where
  "copy_column dst src lyr =
     (case map_of (columns lyr) src of
        None \<Rightarrow> Inl KeyError
      | Some d \<Rightarrow>
          Inr \<lparr>columns = assign_dtype dst d (columns lyr), rows = map (\<lambda>r. r(dst := r src)) (rows lyr)\<rparr>)"

text \<open>
  \<open>.astype(int).astype(str)\<close> on one value of a numeric column: the number is cut towards
  zero and written in decimal; a \<open>NaN\<close> makes the cast raise. The cast is to \<open>int64\<close>: a
  number that, cut towards zero, lies beyond the range of that type becomes the least
  \<open>int64\<close>, as the conversion instruction of x86-64 gives it, and nothing is raised.
\<close>

definition trunc :: "rat \<Rightarrow> int" where
  "trunc q = (if 0 \<le> q then \<lfloor>q\<rfloor> else \<lceil>q\<rceil>)"

definition in_int64 :: "int \<Rightarrow> bool" where
  "in_int64 i = (- (2 ^ 63) \<le> i \<and> i < 2 ^ 63)"

definition astype_int :: "rat \<Rightarrow> int" where
  "astype_int q = (if in_int64 (trunc q) then trunc q else - (2 ^ 63))"

fun astype_int_str :: "'g cell \<Rightarrow> error + 'g cell" where
  "astype_int_str (Num q) = Inr (Str (str_int (astype_int q)))"
| "astype_int_str Null = Inl ValueError"
| "astype_int_str (Str s) = Inl ValueError"
| "astype_int_str (Geom g) = Inl TypeError"

fun convert_rows :: "string \<Rightarrow> string \<Rightarrow> (string \<Rightarrow> 'g cell) list \<Rightarrow> error + (string \<Rightarrow> 'g cell) list" where
  "convert_rows dst src [] = Inr []"
| "convert_rows dst src (r # rs) =
     (case astype_int_str (r src) of
        Inl e \<Rightarrow> Inl e
      | Inr v \<Rightarrow>
          (case convert_rows dst src rs of
             Inl e \<Rightarrow> Inl e
           | Inr rs' \<Rightarrow> Inr (r(dst := v) # rs')))"

text \<open>\<open>df[dst] = df[src].astype(int).astype(str)\<close>\<close>

definition stringify_column :: "string \<Rightarrow> string \<Rightarrow> 'g layer \<Rightarrow> error + 'g layer" where
  "stringify_column dst src lyr =
     (case convert_rows dst src (rows lyr) of
        Inl e \<Rightarrow> Inl e
      | Inr rs \<Rightarrow> Inr \<lparr>columns = assign_dtype dst Object (columns lyr), rows = rs\<rparr>)"

text \<open>
  \<open>drop_fields\<close>: every column is dropped that is neither in \<open>keep_fields\<close> nor called
  \<open>geometry\<close> in any case of its letters.
\<close>

definition drop_fields :: "'g layer \<Rightarrow> string list \<Rightarrow> 'g layer" where
  "drop_fields df keep_fields =
     (let dropped = [f \<leftarrow> names df. f \<notin> set keep_fields \<and> lower f \<noteq> ''geometry''] in
      \<lparr>columns = [c \<leftarrow> columns df. fst c \<notin> set dropped],
       rows = map (\<lambda>r f. if f \<in> set dropped then Null else r f) (rows df)\<rparr>)"

section \<open>Field Harmonizer\<close>

text \<open>\<open>not field\<close> for a variable that holds \<open>None\<close> or a column name.\<close>

definition unset :: "string option \<Rightarrow> bool" where
  "unset field = (field = None \<or> field = Some [])"

text \<open>
  The loop \<open>for field in fields\<close> of \<open>calculate_fields\<close>, on the pair of variables. The test
  \<open>field.upper() in possible_pcode_fields\<close> fails when \<open>field.upper()\<close> has a code point that
  no text of the configuration has.
\<close>

fun scan_fields ::
  "string list \<Rightarrow> string list \<Rightarrow> string list \<Rightarrow> string option \<times> string option
     \<Rightarrow> string option \<times> string option" where
  "scan_fields possible_pcode_fields possible_name_fields [] (pcode_field, name_field) =
     (pcode_field, name_field)"
| "scan_fields possible_pcode_fields possible_name_fields (field # field_list) (pcode_field, name_field) =
     scan_fields possible_pcode_fields possible_name_fields field_list
       (if unset pcode_field \<and> upper field \<in> Some ` set possible_pcode_fields then Some field else pcode_field,
        if unset name_field \<and> upper field \<in> Some ` set possible_name_fields then Some field else name_field)"

text \<open>
  The choice of the source columns of depth \<open>l\<close>; \<open>pcode_headers\<close> and \<open>name_headers\<close> are
  \<open>self.headers["pcode"]\<close> and \<open>self.headers["name"]\<close>.
\<close>

definition source_fields ::
  "string list \<Rightarrow> string list \<Rightarrow> string list \<Rightarrow> nat \<Rightarrow> string option \<times> string option" where
  "source_fields pcode_headers name_headers field_list l =
     (let possible_pcode_fields = map (replace_hash (str_nat l)) pcode_headers;
          possible_name_fields = map (replace_hash (str_nat l)) name_headers;
          pcode_field = (if adm_pcode l \<in> set field_list then Some (adm_pcode l) else None);
          name_field = (if adm_en l \<in> set field_list then Some (adm_en l) else None)
      in scan_fields possible_pcode_fields possible_name_fields field_list (pcode_field, name_field))"

definition pcode_source :: "string list \<Rightarrow> string list \<Rightarrow> string list \<Rightarrow> nat \<Rightarrow> string option" where
  "pcode_source pcode_headers name_headers field_list l = fst (source_fields pcode_headers name_headers field_list l)"

definition name_source :: "string list \<Rightarrow> string list \<Rightarrow> string list \<Rightarrow> nat \<Rightarrow> string option" where
  "name_source pcode_headers name_headers field_list l = snd (source_fields pcode_headers name_headers field_list l)"

text \<open>Lines 152 to 157: the name column of depth \<open>l\<close>.\<close>

definition assign_ref ::
  "string list \<Rightarrow> string list \<Rightarrow> string list \<Rightarrow> nat \<Rightarrow> 'g layer \<Rightarrow> error + 'g layer" where
  "assign_ref pcode_headers name_headers field_list l boundary_lyr =
     (let name_field = name_source pcode_headers name_headers field_list l
      in if unset name_field then Inr (set_scalar (adm_ref l) [] boundary_lyr)
         else copy_column (adm_ref l) (the name_field) boundary_lyr)"

text \<open>Lines 159 to 168: the pcode column of depth \<open>l\<close>, as text.\<close>

definition assign_pcode ::
  "string list \<Rightarrow> string list \<Rightarrow> string list \<Rightarrow> nat \<Rightarrow> 'g layer \<Rightarrow> error + 'g layer" where
  "assign_pcode pcode_headers name_headers field_list l boundary_lyr =
     (let pcode_field = pcode_source pcode_headers name_headers field_list l
      in if unset pcode_field then Inr (set_scalar (adm_pcode l) [] boundary_lyr)
         else
           (case map_of (columns boundary_lyr) (the pcode_field) of
              None \<Rightarrow> Inl KeyError
            | Some d \<Rightarrow>
                if d = Numeric then stringify_column (adm_pcode l) (the pcode_field) boundary_lyr
                else copy_column (adm_pcode l) (the pcode_field) boundary_lyr))"

text \<open>One turn of the loop over the depths, lines 138 to 168.\<close>

definition harmonize_level ::
  "string list \<Rightarrow> string list \<Rightarrow> string list \<Rightarrow> nat \<Rightarrow> 'g layer \<Rightarrow> error + 'g layer" where
  "harmonize_level pcode_headers name_headers field_list l boundary_lyr =
     (case assign_ref pcode_headers name_headers field_list l boundary_lyr of
        Inl e \<Rightarrow> Inl e
      | Inr lyr \<Rightarrow> assign_pcode pcode_headers name_headers field_list l lyr)"

fun harmonize_levels ::
  "string list \<Rightarrow> string list \<Rightarrow> string list \<Rightarrow> nat list \<Rightarrow> 'g layer \<Rightarrow> error + 'g layer" where
  "harmonize_levels pcode_headers name_headers field_list [] boundary_lyr = Inr boundary_lyr"
| "harmonize_levels pcode_headers name_headers field_list (l # ls) boundary_lyr =
     (case harmonize_level pcode_headers name_headers field_list l boundary_lyr of
        Inl e \<Rightarrow> Inl e
      | Inr lyr \<Rightarrow> harmonize_levels pcode_headers name_headers field_list ls lyr)"

text \<open>
  The order in which \<open>groupby\<close> and \<open>sort_values\<close> put the values of a column: numbers before
  texts, nulls last.
\<close>

fun rank :: "'g cell \<Rightarrow> nat \<times> rat \<times> string" where
  "rank (Num q) = (0, q, [])"
| "rank (Str s) = (1, 0, s)"
| "rank (Geom g) = (2, 0, [])"
| "rank Null = (3, 0, [])"

fun is_geom :: "'g cell \<Rightarrow> bool" where
  "is_geom (Geom g) = True"
| "is_geom c = False"

fun geoms_of :: "'g cell list \<Rightarrow> 'g list" where
  "geoms_of [] = []"
| "geoms_of (Geom g # cs) = g # geoms_of cs"
| "geoms_of (c # cs) = geoms_of cs"

text \<open>The aggregation \<open>first\<close>: the first value of the group that is not null.\<close>

fun first_valid :: "'g cell list \<Rightarrow> 'g cell" where
  "first_valid [] = Null"
| "first_valid (Null # cs) = first_valid cs"
| "first_valid (c # cs) = c"

text \<open>
  \<open>df.dissolve(by=by, as_index=False)\<close>. Records with a null key are left out, the other
  records are grouped by the values of the columns \<open>by\<close>, the groups come in the order of
  their keys, the geometry of a group is \<open>unary_union\<close> of its geometries and each other column
  takes its first value that is not null.
\<close>

definition dissolve :: "('g list \<Rightarrow> 'g) \<Rightarrow> string list \<Rightarrow> 'g layer \<Rightarrow> error + 'g layer" where
  "dissolve unary_union by df =
     (if by = [] then Inl ValueError
      else if ''geometry'' \<notin> set (names df) \<or> ''geometry'' \<in> set by \<or> \<not> set by \<subseteq> set (names df)
      then Inl KeyError
      else if \<not> distinct by then Inl ValueError
      else
        (let kept = [r \<leftarrow> rows df. \<forall>f \<in> set by. r f \<noteq> Null];
             keys = map (\<lambda>r. map r by) kept
         in if (\<exists>k \<in> set keys. \<exists>c \<in> set k. is_geom c) then Inl TypeError
            else
              (let others = [c \<leftarrow> columns df. fst c \<notin> set by \<and> fst c \<noteq> ''geometry''];
                   groups = map (\<lambda>k. [r \<leftarrow> kept. map r by = k]) (sort_key (map rank) (remdups keys))
               in Inr \<lparr>columns = map (\<lambda>f. (f, the (map_of (columns df) f))) by
                                   @ [(''geometry'', Geometry)] @ others,
                        rows = map (\<lambda>grp f.
                                 if f \<in> set by then hd grp f
                                 else if f = ''geometry''
                                 then Geom (unary_union (geoms_of (map (\<lambda>r. r ''geometry'') grp)))
                                 else if f \<in> set (map fst others) then first_valid (map (\<lambda>r. r f) grp)
                                 else Null) groups\<rparr>)))"

text \<open>
  Lines 133 and 134: the columns \<open>alpha_3\<close> and \<open>ADM0_REF\<close>, for the upper-cased country code
  \<open>alpha_3\<close>.
\<close>

definition assign_country :: "string \<Rightarrow> string \<Rightarrow> 'g layer \<Rightarrow> 'g layer" where
  "assign_country alpha_3 country_name boundary_lyr =
     set_scalar ''ADM0_REF'' country_name (set_scalar ''alpha_3'' alpha_3 boundary_lyr)"

text \<open>
  \<open>Boundaries.calculate_fields\<close>. \<open>unary_union\<close> is the union of geometries that \<open>dissolve\<close>
  uses.
\<close>

definition calculate_fields ::
  "('g list \<Rightarrow> 'g) \<Rightarrow> string list \<Rightarrow> string list \<Rightarrow> 'g layer \<Rightarrow> string \<Rightarrow> string \<Rightarrow> string list
     \<Rightarrow> string \<Rightarrow> error + 'g layer" where
  "calculate_fields unary_union pcode_headers name_headers boundary_lyr iso3 country_name req_fields level =
     (case upper iso3 of
        None \<Rightarrow> Inl Unmodelled
      | Some alpha_3 \<Rightarrow>
          (let lyr = assign_country alpha_3 country_name boundary_lyr;
               field_list = names lyr
           in case level_depth level of
                Inl e \<Rightarrow> Inl e
              | Inr d \<Rightarrow>
                  (case harmonize_levels pcode_headers name_headers field_list [1..<d + 1] lyr of
                     Inl e \<Rightarrow> Inl e
                   | Inr lyr' \<Rightarrow> dissolve unary_union req_fields (drop_fields lyr' req_fields))))"

section \<open>Global Merger\<close>

text \<open>
  \<open>a.append(b)\<close>: the records of \<open>b\<close> after those of \<open>a\<close>, over the columns of \<open>a\<close> followed by
  the new columns of \<open>b\<close>; a column that the two frames type differently becomes an object
  column. A record reads \<open>Null\<close> in a column that its frame did not have.
\<close>

definition append_layer :: "'g layer \<Rightarrow> 'g layer \<Rightarrow> 'g layer" where
  "append_layer a b =
     \<lparr>columns =
        map (\<lambda>(n, t). case map_of (columns b) n of
                         None \<Rightarrow> (n, t)
                       | Some t' \<Rightarrow> (n, if t = t' then t else Object)) (columns a)
        @ [c \<leftarrow> columns b. fst c \<notin> set (names a)],
      rows = rows a @ rows b\<rparr>"

fun is_str :: "'g cell \<Rightarrow> bool" where
  "is_str (Str s) = True"
| "is_str c = False"

fun is_num :: "'g cell \<Rightarrow> bool" where
  "is_num (Num q) = True"
| "is_num c = False"

text \<open>
  The values that a sort can compare: at most one value, or texts only, or numbers only.
  Python raises \<open>TypeError\<close> when it has to compare a text with a number or two geometries.
\<close>

definition comparable :: "'g cell list \<Rightarrow> bool" where
  "comparable cs = (length cs \<le> 1 \<or> (\<forall>c \<in> set cs. is_str c) \<or> (\<forall>c \<in> set cs. is_num c))"

text \<open>
  \<open>df.sort_values(by=[by])\<close>: ascending, nulls last. pandas leaves open the order of records
  with equal values; here they keep their order.
\<close>

definition sort_values :: "string \<Rightarrow> 'g layer \<Rightarrow> error + 'g layer" where
  "sort_values by df =
     (if by \<notin> set (names df) then Inl KeyError
      else if \<not> comparable [c \<leftarrow> map (\<lambda>r. r by) (rows df). c \<noteq> Null] then Inl TypeError
      else Inr \<lparr>columns = columns df, rows = sort_key (\<lambda>r. rank (r by)) (rows df)\<rparr>)"

text \<open>\<open>f"{level}_{geom_type}"\<close> and \<open>f"ADM{level[-1]}_PCODE"\<close>\<close>

definition partition_key :: "string \<Rightarrow> string \<Rightarrow> string" where
  "partition_key level geom_type = level @ ''_'' @ geom_type"

definition level_pcode :: "char \<Rightarrow> string" where
  "level_pcode c = ''ADM'' @ [c] @ ''_PCODE''"

text \<open>
  \<open>Boundaries.replace_country_boundaries\<close>, on the dictionary \<open>self.boundaries\<close>: the new
  dictionary, or the exception raised before the dictionary is written.
\<close>

definition replace_country_boundaries ::
  "(string \<rightharpoonup> 'g layer) \<Rightarrow> 'g layer \<Rightarrow> string \<Rightarrow> string \<Rightarrow> string \<Rightarrow> error + (string \<rightharpoonup> 'g layer)" where
  "replace_country_boundaries boundaries new_boundaries iso3 level geom_type =
     (case boundaries (partition_key level geom_type) of
        None \<Rightarrow> Inl KeyError
      | Some part \<Rightarrow>
          if ''alpha_3'' \<notin> set (names part) then Inl KeyError
          else
            (let global_bounds =
                   append_layer
                     \<lparr>columns = columns part, rows = [r \<leftarrow> rows part. r ''alpha_3'' \<noteq> Str iso3]\<rparr>
                     new_boundaries
             in case last_chr level of
                  Inl e \<Rightarrow> Inl e
                | Inr c \<Rightarrow>
                    (case sort_values (level_pcode c) global_bounds of
                       Inl e \<Rightarrow> Inl e
                     | Inr sorted_bounds \<Rightarrow>
                         Inr (boundaries(partition_key level geom_type \<mapsto> sorted_bounds)))))"

section \<open>External collaborators\<close>

text \<open>
  What the core calls and this development leaves open: the catalog (\<open>Dataset.read_from_hdx\<close>
  followed by \<open>get_resources\<close>, \<open>None\<close> for a dataset that is not found; \<open>resource.download\<close>),
  the file system (the extraction of an archive and the search for its shapefiles), the
  loading of a layer (\<open>read_file\<close> and the conversion to WGS 84, lines 257 to 261), the
  geometry library, and the configuration. Coordinate reference systems are not modelled.
\<close>

record ('g, 'f, 't) env =
  read_dataset :: "string \<Rightarrow> error + resource list option"
  download_resource :: "resource \<Rightarrow> error + 'f"
  extract_shapefiles :: "'f \<Rightarrow> error + string list"
  load_layer :: "string \<Rightarrow> error + 'g layer"
  geo_union :: "'g list \<Rightarrow> 'g"
  geo_difference :: "'g \<Rightarrow> 'g layer \<Rightarrow> 'g option"
  geo_is_valid :: "'g \<Rightarrow> bool"
  geo_make_valid :: "'g \<Rightarrow> 'g"
  geo_parts :: "'g \<Rightarrow> 'g list option"
  geo_polygonal :: "'g \<Rightarrow> bool"
  geo_multipolygon :: "'g list \<Rightarrow> 'g"
  geo_topology :: "'g layer \<Rightarrow> error + 't"
  geo_toposimplify :: "rat \<Rightarrow> 't \<Rightarrow> error + 'g layer"
  geo_clip :: "'g layer \<Rightarrow> 'g layer \<Rightarrow> error + 'g layer"
  geo_point :: "'g \<Rightarrow> 'g"
  cfg_dataset_exceptions :: "string \<rightharpoonup> string"
  cfg_resource_exceptions :: "string \<rightharpoonup> string"
  cfg_pcode_headers :: "string list"
  cfg_name_headers :: "string list"

section \<open>National Boundary Builder\<close>




section \<open>Geometry Harmonizer\<close>

text \<open>
  A Python \<open>float\<close> is a binary floating-point number with 53 significant bits, modelled by
  its exact value. \<open>float64 q\<close> is the float nearest to the rational \<open>q\<close>, the one with the even
  significand when two are equally near: the value of a literal and the result of each
  operation on floats. Exponents are not bounded here, as no number of this development
  comes near the limits of the format.
\<close>

function bit_length :: "int \<Rightarrow> int" where
  "bit_length n = (if n \<le> 0 then 0 else 1 + bit_length (n div 2))"
  by pat_completeness auto
termination
  by (relation "measure nat") auto

declare bit_length.simps [simp del]

definition pow2 :: "int \<Rightarrow> rat" where
  "pow2 e = (if 0 \<le> e then 2 ^ nat e else 1 / 2 ^ nat (- e))"

text \<open>The exponent \<open>e\<close> with \<open>2 ^ e \<le> q < 2 ^ (e + 1)\<close>, for a positive \<open>q\<close>.\<close>

definition floor_log2 :: "rat \<Rightarrow> int" where
  "floor_log2 q =
     (let e = bit_length (fst (quotient_of q)) - bit_length (snd (quotient_of q))
      in if pow2 e \<le> q then e else e - 1)"

definition round_half_even :: "rat \<Rightarrow> int" where
  "round_half_even m =
     (let f = \<lfloor>m\<rfloor>; r = m - of_int f
      in if r < 1 / 2 then f else if 1 / 2 < r then f + 1 else if even f then f else f + 1)"

definition float64 :: "rat \<Rightarrow> rat" where
  "float64 q =
     (if q = 0 then 0
      else
        (let ulp = pow2 (floor_log2 \<bar>q\<bar> - 52)
         in sgn q * of_int (round_half_even (\<bar>q\<bar> / ulp)) * ulp))"

text \<open>Lines 177 to 179 of \<open>update_geometry\<close>: the tolerance of the simplification.\<close>

definition simplify_epsilon :: "string \<Rightarrow> error + rat" where
  "simplify_epsilon level =
     (let eps = float64 0.0075 in
      case level_depth level of
        Inl e \<Rightarrow> Inl e
      | Inr d \<Rightarrow> if d > 0 then Inr (float64 (eps / of_nat d)) else Inr eps)"

text \<open>Lines 189 to 202: the repair of one geometry.\<close>

definition repair_geometry :: "('g, 'f, 't) env \<Rightarrow> 'g \<Rightarrow> 'g" where
  "repair_geometry env g =
     (let g1 = (if \<not> geo_is_valid env g then geo_make_valid env g else g) in
      case geo_parts env g1 of
        None \<Rightarrow> g1
      | Some parts \<Rightarrow>
          (let new_geom = [part \<leftarrow> parts. geo_polygonal env part] in
           if length new_geom = 1 then new_geom ! 0 else geo_multipolygon env new_geom))"

fun repair_rows :: "('g, 'f, 't) env \<Rightarrow> (string \<Rightarrow> 'g cell) list \<Rightarrow> error + (string \<Rightarrow> 'g cell) list" where
  "repair_rows env [] = Inr []"
| "repair_rows env (r # rs) =
     (case r ''geometry'' of
        Geom g \<Rightarrow>
          (case repair_rows env rs of
             Inl e \<Rightarrow> Inl e
           | Inr rs' \<Rightarrow> Inr (r(''geometry'' := Geom (repair_geometry env g)) # rs'))
      | c \<Rightarrow> Inl AttributeError)"

text \<open>\<open>Boundaries.update_geometry\<close>\<close>

definition update_geometry ::
  "('g, 'f, 't) env \<Rightarrow> 'g layer \<Rightarrow> 'g layer \<Rightarrow> string \<Rightarrow> error + 'g layer" where
  "update_geometry env boundary_lyr country_adm0 level =
     (case geo_topology env boundary_lyr of
        Inl e \<Rightarrow> Inl e
      | Inr boundary_topo \<Rightarrow>
          (case simplify_epsilon level of
             Inl e \<Rightarrow> Inl e
           | Inr eps \<Rightarrow>
               (case geo_toposimplify env eps boundary_topo of
                  Inl e \<Rightarrow> Inl e
                | Inr lyr \<Rightarrow>
                    (case repair_rows env (rows lyr) of
                       Inl e \<Rightarrow> Inl e
                     | Inr rs \<Rightarrow> geo_clip env \<lparr>columns = columns lyr, rows = rs\<rparr> country_adm0))))"



section \<open>Orchestrator\<close>







section \<open>An example run\<close>






text \<open>
  The properties of a partition that the specification names: it is in the order of a
  column, and the records of each country are adjacent.
\<close>

definition sorted_by :: "string \<Rightarrow> 'g layer \<Rightarrow> bool" where
  "sorted_by f df = sorted (map (\<lambda>r. rank (r f)) (rows df))"

definition country_blocks :: "'g layer \<Rightarrow> bool" where
  "country_blocks df = distinct (remdups_adj (map (\<lambda>r. r ''alpha_3'') (rows df)))"

text \<open>The records of a country in a partition, and the records of the other countries.\<close>

definition records_of :: "string \<Rightarrow> 'g layer \<Rightarrow> (string \<Rightarrow> 'g cell) list" where
  "records_of iso3 df = [r \<leftarrow> rows df. r ''alpha_3'' = Str iso3]"

definition records_besides :: "string \<Rightarrow> 'g layer \<Rightarrow> (string \<Rightarrow> 'g cell) list" where
  "records_besides iso3 df = [r \<leftarrow> rows df. r ''alpha_3'' \<noteq> Str iso3]"



section \<open>Properties of the patterns\<close>

lemma set_dot_star: "set (dot_star s) = {v. \<exists>u. s = u @ v \<and> newline \<notin> set u}"
proof (induction s)
  case Nil
  then show ?case by auto
next
  case (Cons c cs)
  show ?case
  proof (cases "c = newline")
    case True
    then show ?thesis
      by (auto simp: Cons_eq_append_conv)
  next
    case False
    then show ?thesis using Cons
      by (auto simp: Cons_eq_append_conv)
  qed
qed

lemma set_rests: "set (rests r s) = {v. \<exists>u \<in> lang r. s = u @ v}"
proof (induction r arbitrary: s)
  case (Cat r1 r2)
  then show ?case by fastforce
next
  case DotStar
  then show ?case by (auto simp: set_dot_star)
qed (auto split: list.splits)

lemma re_match_iff: "re_match r s \<longleftrightarrow> (\<exists>u v. s = u @ v \<and> u \<in> lang r)"
proof -
  have "re_match r s \<longleftrightarrow> set (rests r s) \<noteq> {}"
    by (simp add: re_match_def)
  also have "\<dots> \<longleftrightarrow> (\<exists>u v. s = u @ v \<and> u \<in> lang r)"
    unfolding set_rests by blast
  finally show ?thesis .
qed

lemma lang_lit: "lang (lit t) = {m. lower m = lower t}"
proof (induction t)
  case Nil
  then show ?case by (simp add: lit_def lower_def)
next
  case (Cons a t)
  have "lang (lit (a # t)) = {u @ v | u v. u \<in> lang (Sym a) \<and> v \<in> lang (lit t)}"
    by (simp add: lit_def)
  also have "\<dots> = {m. lower m = lower (a # t)}"
    unfolding Cons by (auto simp: lower_def Cons_eq_map_conv) (metis append_Cons append_Nil)
  finally show ?case .
qed

lemma lower_append: "lower (u @ v) = lower u @ lower v"
  by (simp add: lower_def)

lemma lower_Nil: "lower [] = []"
  by (simp add: lower_def)

lemma lower_length: "length (lower u) = length u"
  by (simp add: lower_def)

lemma lower_eq_appendD:
  assumes "lower m = x @ y"
  shows "\<exists>u v. m = u @ v \<and> lower u = x \<and> lower v = y"
proof -
  from assms have "map lower_chr m = x @ y" by (simp add: lower_def)
  then obtain u v where "m = u @ v" "map lower_chr u = x" "map lower_chr v = y"
    by (auto simp: map_eq_append_conv)
  then show ?thesis by (auto simp: lower_def)
qed

lemma lang_between:
  "lang (anywhere r) =
     {a @ m @ b | a m b. newline \<notin> set a \<and> m \<in> lang r \<and> newline \<notin> set b}"
  by (auto simp: anywhere_def)

lemma token_match_iff:
  assumes "single_line s"
  shows "re_match (anywhere (lit t)) s \<longleftrightarrow> contains_ci t s"
proof
  assume "re_match (anywhere (lit t)) s"
  then obtain u v where uv: "s = u @ v" "u \<in> lang (anywhere (lit t))"
    unfolding re_match_iff by blast
  then obtain a m b where "u = a @ m @ b" "lower m = lower t"
    unfolding lang_between lang_lit by blast
  with uv(1) have "s = a @ m @ (b @ v)" by simp
  with \<open>lower m = lower t\<close> show "contains_ci t s"
    unfolding contains_ci_def by blast
next
  assume "contains_ci t s"
  then obtain pre mid suf where s: "s = pre @ mid @ suf" and m: "lower mid = lower t"
    unfolding contains_ci_def by blast
  from assms s have "newline \<notin> set pre" by (simp add: single_line_def)
  with m have "pre @ mid @ [] \<in> lang (anywhere (lit t))"
    unfolding lang_between lang_lit
    by (intro CollectI exI[of _ pre] exI[of _ mid] exI[of _ "[]"]) simp
  with s show "re_match (anywhere (lit t)) s"
    unfolding re_match_iff by (metis append.assoc append_Nil2)
qed

lemma lower_chr_eq_zero: "lower_chr c = CHR ''0'' \<longleftrightarrow> c = CHR ''0''"
proof
  assume h: "lower_chr c = CHR ''0''"
  show "c = CHR ''0''"
  proof (cases "(65 \<le> (of_char c :: nat) \<and> (of_char c :: nat) \<le> 90)
                 \<or> (192 \<le> (of_char c :: nat) \<and> (of_char c :: nat) \<le> 222 \<and> (of_char c :: nat) \<noteq> 215)")
    case True
    with h have "char_of (of_char c + 32 :: nat) = CHR ''0''"
      by (simp add: lower_chr_def)
    then have "(of_char (char_of (of_char c + 32 :: nat)) :: nat) = of_char (CHR ''0'')"
      by simp
    then have "(of_char c + 32 :: nat) mod 256 = 48"
      by simp
    with True show ?thesis by auto
  next
    case False
    with h show ?thesis by (simp add: lower_chr_def)
  qed
next
  assume "c = CHR ''0''"
  then show "lower_chr c = CHR ''0''" by (simp add: lower_chr_def)
qed

lemma lower_eq_zero: "lower z = ''0'' \<longleftrightarrow> z = ''0''"
  by (cases z) (auto simp: lower_def lower_chr_eq_zero)

lemma lower_adm: "lower ''adm'' = ''adm''" and lower_in: "lower ''in'' = ''in''"
  and lower_admin: "lower ''admin'' = ''admin''" and lower_zero: "lower ''0'' = ''0''"
  by (simp_all add: lower_def lower_chr_def)

lemma lang_seq_ConsI: "u \<in> lang r \<Longrightarrow> v \<in> lang (seq rs) \<Longrightarrow> u @ v \<in> lang (seq (r # rs))"
  by auto

lemma lang_seq_ConsE:
  assumes "w \<in> lang (seq (r # rs))"
  obtains u v where "w = u @ v" "u \<in> lang r" "v \<in> lang (seq rs)"
  using assms by auto

lemma lang_seq_one: "lang (seq [r]) = lang r"
  by simp

lemma lang_Opt_lit: "m \<in> lang (Opt (lit t)) \<longleftrightarrow> m = [] \<or> lower m = lower t"
  by (simp add: lang_lit)

lemma lang_Opt_Ws: "m \<in> lang (Opt Ws) \<longleftrightarrow> m = [] \<or> (\<exists>x. m = [x] \<and> is_space x)"
  by auto

lemma lower_single: "lower k = lower [c] \<longleftrightarrow> (\<exists>c'. k = [c'] \<and> lower_chr c' = lower_chr c)"
  by (cases k) (auto simp: lower_def)

lemma level_match_imp:
  assumes "re_match (resource_level_rx (lit [c])) s"
  shows "references_level c s"
proof -
  from assms obtain u v where s: "s = u @ v" and u: "u \<in> lang (resource_level_rx (lit [c]))"
    unfolding re_match_iff by blast
  from u obtain p u1 where 1: "u = p @ u1" "u1 \<in> lang (seq [lit ''adm'', Opt (lit ''in''), Opt Ws, Opt (lit ''0''), lit [c], DotStar])"
    unfolding resource_level_rx_def by (rule lang_seq_ConsE)
  from 1(2) obtain a u2 where 2: "u1 = a @ u2" "a \<in> lang (lit ''adm'')" "u2 \<in> lang (seq [Opt (lit ''in''), Opt Ws, Opt (lit ''0''), lit [c], DotStar])"
    by (rule lang_seq_ConsE)
  from 2(3) obtain i u3 where 3: "u2 = i @ u3" "i \<in> lang (Opt (lit ''in''))" "u3 \<in> lang (seq [Opt Ws, Opt (lit ''0''), lit [c], DotStar])"
    by (rule lang_seq_ConsE)
  from 3(3) obtain w u4 where 4: "u3 = w @ u4" "w \<in> lang (Opt Ws)" "u4 \<in> lang (seq [Opt (lit ''0''), lit [c], DotStar])"
    by (rule lang_seq_ConsE)
  from 4(3) obtain z u5 where 5: "u4 = z @ u5" "z \<in> lang (Opt (lit ''0''))" "u5 \<in> lang (seq [lit [c], DotStar])"
    by (rule lang_seq_ConsE)
  from 5(3) obtain k b where 6: "u5 = k @ b" "k \<in> lang (lit [c])"
    by (rule lang_seq_ConsE)
  from 6(2) obtain c' where k: "k = [c']" "lower_chr c' = lower_chr c"
    unfolding lang_lit mem_Collect_eq lower_single by blast
  from 2(2) have a: "lower a = ''adm''" by (simp add: lang_lit lower_adm)
  from 3(2) have i: "i = [] \<or> lower i = ''in''" by (simp add: lang_lit lower_in)
  from 4(2) have w: "w = [] \<or> (\<exists>x. w = [x] \<and> is_space x)" by (simp only: lang_Opt_Ws)
  from 5(2) have z: "z = [] \<or> z = ''0''" by (simp add: lang_lit lower_zero lower_eq_zero)
  have ai: "lower (a @ i) = ''adm'' \<or> lower (a @ i) = ''admin''"
    using a i by (auto simp: lower_append lower_Nil)
  have "s = p @ (a @ i) @ w @ z @ [c'] @ (b @ v)"
    using s 1 2 3 4 5 6 k by simp
  with ai w z k(2) show ?thesis
    unfolding references_level_def by blast
qed

lemma level_match_if:
  assumes "references_level c s" and "single_line s"
  shows "re_match (resource_level_rx (lit [c])) s"
proof -
  from assms(1) obtain pre a w z c' suf where s: "s = pre @ a @ w @ z @ [c'] @ suf"
    and a: "lower a = ''adm'' \<or> lower a = ''admin''"
    and w: "w = [] \<or> (\<exists>x. w = [x] \<and> is_space x)"
    and z: "z = [] \<or> z = ''0''"
    and c: "lower_chr c' = lower_chr c"
    unfolding references_level_def by blast
  from a obtain a1 a2 where a12: "a = a1 @ a2" "lower a1 = ''adm''" "a2 = [] \<or> lower a2 = ''in''"
  proof
    assume "lower a = ''adm''"
    then show ?thesis using that[of a "[]"] by simp
  next
    assume "lower a = ''admin''"
    then have "lower a = ''adm'' @ ''in''" by simp
    from lower_eq_appendD[OF this] show ?thesis using that by blast
  qed
  from assms(2) s have nl: "newline \<notin> set pre" by (simp add: single_line_def)
  have 6: "[] \<in> lang (seq [DotStar])" by simp
  have 5: "[c'] @ [] \<in> lang (seq [lit [c], DotStar])"
    by (rule lang_seq_ConsI[OF _ 6]) (simp add: lang_lit lower_single c)
  have 4: "z @ [c'] @ [] \<in> lang (seq [Opt (lit ''0''), lit [c], DotStar])"
    by (rule lang_seq_ConsI[OF _ 5]) (use z in \<open>auto simp: lang_lit\<close>)
  have 3: "w @ z @ [c'] @ [] \<in> lang (seq [Opt Ws, Opt (lit ''0''), lit [c], DotStar])"
    by (rule lang_seq_ConsI[OF _ 4]) (use w in \<open>simp only: lang_Opt_Ws\<close>)
  have 2: "a2 @ w @ z @ [c'] @ [] \<in> lang (seq [Opt (lit ''in''), Opt Ws, Opt (lit ''0''), lit [c], DotStar])"
    by (rule lang_seq_ConsI[OF _ 3]) (use a12(3) in \<open>auto simp: lang_lit lower_in\<close>)
  have 1: "a1 @ a2 @ w @ z @ [c'] @ [] \<in> lang (seq [lit ''adm'', Opt (lit ''in''), Opt Ws, Opt (lit ''0''), lit [c], DotStar])"
    by (rule lang_seq_ConsI[OF _ 2]) (simp add: lang_lit a12(2) lower_adm)
  have 0: "pre @ a1 @ a2 @ w @ z @ [c'] @ [] \<in> lang (resource_level_rx (lit [c]))"
    unfolding resource_level_rx_def by (rule lang_seq_ConsI[OF _ 1]) (simp add: nl)
  have "s = (pre @ a1 @ a2 @ w @ z @ [c'] @ []) @ suf"
    using s a12(1) by simp
  with 0 show ?thesis unfolding re_match_iff by blast
qed

lemma concat_map_if: "concat (map (\<lambda>i. if Q i then [f i] else []) l) = map f (filter Q l)"
  by (induction l) auto

lemma index_filter:
  "concat (map (\<lambda>i. if map P xs ! i then [xs ! i] else []) [0..<length xs]) = filter P xs"
proof -
  have "concat (map (\<lambda>i. if map P xs ! i then [xs ! i] else []) [0..<length xs])
        = map (nth xs) (filter (\<lambda>i. map P xs ! i) [0..<length xs])"
    by (rule concat_map_if)
  also have "filter (\<lambda>i. map P xs ! i) [0..<length xs] = filter (P \<circ> nth xs) [0..<length xs]"
    by (rule filter_cong) auto
  also have "map (nth xs) (filter (P \<circ> nth xs) [0..<length xs]) = filter P (map (nth xs) [0..<length xs])"
    by (simp add: filter_map)
  also have "\<dots> = filter P xs"
    by (simp add: map_nth)
  finally show ?thesis .
qed

lemma index_filter_not:
  "concat (map (\<lambda>i. if \<not> map P xs ! i then [xs ! i] else []) [0..<length xs]) = filter (\<lambda>x. \<not> P x) xs"
proof -
  have "concat (map (\<lambda>i. if \<not> map P xs ! i then [xs ! i] else []) [0..<length xs])
        = map (nth xs) (filter (\<lambda>i. \<not> map P xs ! i) [0..<length xs])"
    by (rule concat_map_if)
  also have "filter (\<lambda>i. \<not> map P xs ! i) [0..<length xs] = filter ((\<lambda>x. \<not> P x) \<circ> nth xs) [0..<length xs]"
    by (rule filter_cong) auto
  also have "map (nth xs) (filter ((\<lambda>x. \<not> P x) \<circ> nth xs) [0..<length xs])
             = filter (\<lambda>x. \<not> P x) (map (nth xs) [0..<length xs])"
    by (simp add: filter_map)
  also have "\<dots> = filter (\<lambda>x. \<not> P x) xs"
    by (simp add: map_nth)
  finally show ?thesis .
qed

lemma digit_plain: "is_digit d \<Longrightarrow> plain [d]"
  by (auto simp: is_digit_def plain_def metachars_def)

lemma interpolated_plain:
  assumes "plain t"
  shows "interpolated t = Inr (lit t)"
proof -
  have "CHR ''.'' \<in> set metachars"
    by (simp add: metachars_def)
  with assms have "\<forall>c \<in> set t. c \<noteq> CHR ''.''"
    unfolding plain_def by blast
  then have m: "map (\<lambda>c. if c = CHR ''.'' then Dot else Sym c) t = map Sym t"
    by (intro map_cong) simp_all
  from assms have "\<forall>c \<in> set t. c = CHR ''.'' \<or> c \<notin> set metachars"
    by (simp add: plain_def)
  then show ?thesis
    unfolding interpolated_def lit_def m by simp
qed

lemma find_resource_refines:
  assumes sl: "\<forall>r \<in> set resources. single_line (name r)"
    and tok: "token = (case resource_exceptions iso3 of Some t \<Rightarrow> t | None \<Rightarrow> ''adm'')"
    and pl: "plain token"
    and lv: "last_chr level = Inr d" and dg: "is_digit d"
  shows "find_resource resource_exceptions iso3 resources level = Inr (resolver_spec token d resources)"
proof -
  let ?p = "anywhere (lit token)"
  let ?cand = "[r \<leftarrow> resources. file_type r = Some ''shp'' \<and> re_match ?p (name r)]"
  have rp: "resource_pattern token = Inr ?p"
    using pl by (simp add: resource_pattern_def interpolated_plain)
  have lp: "resource_level_pattern level = Inr (resource_level_rx (lit [d]))"
    using lv digit_plain[OF dg] by (simp add: resource_level_pattern_def interpolated_plain)
  have c1: "?cand = filter (\<lambda>r. file_type r = Some ''shp'' \<and> contains_ci token (name r)) resources"
    using sl by (intro filter_cong) (auto simp: token_match_iff)
  have c2: "filter (\<lambda>r. re_match (resource_level_rx (lit [d])) (name r)) ?cand
          = filter (\<lambda>r. references_level d (name r)) ?cand"
    using sl by (intro filter_cong) (auto intro: level_match_imp level_match_if)
  have "find_resource resource_exceptions iso3 resources level
        = Inr (if length ?cand > 1 then filter (\<lambda>r. re_match (resource_level_rx (lit [d])) (name r)) ?cand else ?cand)"
    unfolding find_resource_def tok[symmetric] Let_def rp lp
    by (simp add: index_filter)
  also have "\<dots> = Inr (resolver_spec token d resources)"
    unfolding c2 unfolding c1 resolver_spec_def Let_def by simp
  finally show ?thesis .
qed


section \<open>Properties of the Resource Resolver\<close>

text \<open>
  Claim C3, as amended. For resources with single-line names, an override token without
  pattern operators and a level that ends in a digit \<open>d\<close>, \<open>find_resource\<close> keeps exactly the
  resources whose file type is \<open>shp\<close> and whose name contains the override token of the
  country (the default \<open>adm\<close> without an override) up to case; only when more than one of
  them remains does it keep those whose name names the level (\<open>adm\<close> or \<open>admin\<close>, an optional
  blank, an optional \<open>0\<close>, then \<open>d\<close>). In particular, of the two shapefile archives
  \<open>abc_adm2_shp\<close> and \<open>abc_adm1_shp\<close> it returns exactly the first for the level \<open>adm2\<close>. (The
  token is interpolated into a pattern: with an operator in it, a name is kept that matches
  the pattern, whether it contains the token or not.)
\<close>

theorem find_resource_selection:
  assumes "\<forall>r \<in> set resources. single_line (name r)"
    and "plain (case resource_exceptions iso3 of Some t \<Rightarrow> t | None \<Rightarrow> ''adm'')"
    and "last_chr level = Inr d" and "is_digit d"
  shows "find_resource resource_exceptions iso3 resources level
           = Inr (resolver_spec (case resource_exceptions iso3 of Some t \<Rightarrow> t | None \<Rightarrow> ''adm'') d resources)
         \<and> find_resource Map.empty iso3
               [\<lparr>name = ''abc_adm2_shp'', file_type = Some ''shp''\<rparr>,
                \<lparr>name = ''abc_adm1_shp'', file_type = Some ''shp''\<rparr>] ''adm2''
             = Inr [\<lparr>name = ''abc_adm2_shp'', file_type = Some ''shp''\<rparr>]"
proof
  show "find_resource resource_exceptions iso3 resources level
          = Inr (resolver_spec (case resource_exceptions iso3 of Some t \<Rightarrow> t | None \<Rightarrow> ''adm'') d resources)"
    using assms by (intro find_resource_refines) simp_all
  show "find_resource Map.empty iso3
          [\<lparr>name = ''abc_adm2_shp'', file_type = Some ''shp''\<rparr>,
           \<lparr>name = ''abc_adm1_shp'', file_type = Some ''shp''\<rparr>] ''adm2''
        = Inr [\<lparr>name = ''abc_adm2_shp'', file_type = Some ''shp''\<rparr>]"
    by (simp add: find_resource_def resource_pattern_def interpolated_def plain_def metachars_def
        re_match_def lit_def lower_chr_def newline_def resource_level_pattern_def last_chr_def
        resource_level_rx_def is_space_def anywhere_def)
qed

theorem find_resource_selection_witness:
  "find_resource [''CIV'' \<mapsto> ''c'' @ [CHR 0xF4] @ ''te''] ''CIV''
     [\<lparr>name = ''C'' @ [CHR 0xD4] @ ''TE_Admin 01'', file_type = Some ''shp''\<rparr>,
      \<lparr>name = ''c'' @ [CHR 0xF4] @ ''te_ADM2'', file_type = Some ''shp''\<rparr>,
      \<lparr>name = ''c'' @ [CHR 0xF4] @ ''te_adm1'', file_type = Some ''geojson''\<rparr>,
      \<lparr>name = ''cote_adm1'', file_type = Some ''shp''\<rparr>] ''adm1''
   = Inr (resolver_spec (''c'' @ [CHR 0xF4] @ ''te'') (CHR ''1'')
     [\<lparr>name = ''C'' @ [CHR 0xD4] @ ''TE_Admin 01'', file_type = Some ''shp''\<rparr>,
      \<lparr>name = ''c'' @ [CHR 0xF4] @ ''te_ADM2'', file_type = Some ''shp''\<rparr>,
      \<lparr>name = ''c'' @ [CHR 0xF4] @ ''te_adm1'', file_type = Some ''geojson''\<rparr>,
      \<lparr>name = ''cote_adm1'', file_type = Some ''shp''\<rparr>])
   \<and> find_resource [''CIV'' \<mapsto> ''c'' @ [CHR 0xF4] @ ''te''] ''CIV''
     [\<lparr>name = ''C'' @ [CHR 0xD4] @ ''TE_Admin 01'', file_type = Some ''shp''\<rparr>,
      \<lparr>name = ''c'' @ [CHR 0xF4] @ ''te_ADM2'', file_type = Some ''shp''\<rparr>,
      \<lparr>name = ''c'' @ [CHR 0xF4] @ ''te_adm1'', file_type = Some ''geojson''\<rparr>,
      \<lparr>name = ''cote_adm1'', file_type = Some ''shp''\<rparr>] ''adm1''
     = Inr [\<lparr>name = ''C'' @ [CHR 0xD4] @ ''TE_Admin 01'', file_type = Some ''shp''\<rparr>]
   \<and> find_resource [''CIV'' \<mapsto> ''c'' @ [CHR 0xF4] @ ''te''] ''CIV''
     [\<lparr>name = ''C'' @ [CHR 0xD4] @ ''TE_Admin 01'', file_type = Some ''shp''\<rparr>,
      \<lparr>name = ''c'' @ [CHR 0xF4] @ ''te_adm1'', file_type = Some ''geojson''\<rparr>,
      \<lparr>name = ''cote_adm1'', file_type = Some ''shp''\<rparr>] ''adm2''
     = Inr [\<lparr>name = ''C'' @ [CHR 0xD4] @ ''TE_Admin 01'', file_type = Some ''shp''\<rparr>]"
proof -
  let ?rs = "[\<lparr>name = ''C'' @ [CHR 0xD4] @ ''TE_Admin 01'', file_type = Some ''shp''\<rparr>,
      \<lparr>name = ''c'' @ [CHR 0xF4] @ ''te_ADM2'', file_type = Some ''shp''\<rparr>,
      \<lparr>name = ''c'' @ [CHR 0xF4] @ ''te_adm1'', file_type = Some ''geojson''\<rparr>,
      \<lparr>name = ''cote_adm1'', file_type = Some ''shp''\<rparr>]"
  let ?ex = "[''CIV'' \<mapsto> ''c'' @ [CHR 0xF4] @ ''te'']"
  have 1: "find_resource ?ex ''CIV'' ?rs ''adm1''
           = Inr (resolver_spec (''c'' @ [CHR 0xF4] @ ''te'') (CHR ''1'') ?rs)"
    using find_resource_selection [of "?rs" "?ex" "''CIV''" "''adm1''" "CHR ''1''"]
    by (simp add: single_line_def newline_def plain_def metachars_def last_chr_def is_digit_def)
  have 2: "find_resource ?ex ''CIV'' ?rs ''adm1''
           = Inr [\<lparr>name = ''C'' @ [CHR 0xD4] @ ''TE_Admin 01'', file_type = Some ''shp''\<rparr>]"
    by code_simp
  have 3: "find_resource ?ex ''CIV''
             [\<lparr>name = ''C'' @ [CHR 0xD4] @ ''TE_Admin 01'', file_type = Some ''shp''\<rparr>,
              \<lparr>name = ''c'' @ [CHR 0xF4] @ ''te_adm1'', file_type = Some ''geojson''\<rparr>,
              \<lparr>name = ''cote_adm1'', file_type = Some ''shp''\<rparr>] ''adm2''
           = Inr [\<lparr>name = ''C'' @ [CHR 0xD4] @ ''TE_Admin 01'', file_type = Some ''shp''\<rparr>]"
    by code_simp
  show ?thesis
    by (rule conjI[OF 1 conjI[OF 2 3]])
qed

theorem find_resource_selection_counterexample:
  "find_resource [''XYZ'' \<mapsto> ''adm.''] ''XYZ''
     [\<lparr>name = ''xyz_admin1'', file_type = Some ''shp''\<rparr>] ''adm1''
   = Inr [\<lparr>name = ''xyz_admin1'', file_type = Some ''shp''\<rparr>]
   \<and> resolver_spec ''adm.'' (CHR ''1'') [\<lparr>name = ''xyz_admin1'', file_type = Some ''shp''\<rparr>] = []"
proof
  show "find_resource [''XYZ'' \<mapsto> ''adm.''] ''XYZ''
          [\<lparr>name = ''xyz_admin1'', file_type = Some ''shp''\<rparr>] ''adm1''
        = Inr [\<lparr>name = ''xyz_admin1'', file_type = Some ''shp''\<rparr>]"
    by code_simp
  have "single_line ''xyz_admin1''"
    by (simp add: single_line_def newline_def)
  then have "contains_ci ''adm.'' ''xyz_admin1'' \<longleftrightarrow> re_match (anywhere (lit ''adm.'')) ''xyz_admin1''"
    by (rule token_match_iff[symmetric])
  also have "\<dots> \<longleftrightarrow> False"
    by code_simp
  finally have "\<not> contains_ci ''adm.'' ''xyz_admin1''"
    by simp
  then show "resolver_spec ''adm.'' (CHR ''1'') [\<lparr>name = ''xyz_admin1'', file_type = Some ''shp''\<rparr>] = []"
    by (simp add: resolver_spec_def)
qed

section \<open>Properties of the Shapefile Selector\<close>

lemma simplified_match_iff:
  "single_line b \<Longrightarrow> re_match simplified_pattern b \<longleftrightarrow> contains_ci ''simplified'' b"
  unfolding simplified_pattern_def by (rule token_match_iff)

lemma any_map_iff: "(\<exists>m \<in> set (map P xs). m) \<longleftrightarrow> filter P xs \<noteq> []"
  by (auto simp: filter_empty_conv)

lemma depth_filter_eq:
  assumes "shapefile_level_pattern level = Inr q"
  shows "depth_filter shps level
         = Inr (if length shps > 1 \<and> filter (re_match q) shps \<noteq> [] then filter (re_match q) shps else shps)"
  unfolding depth_filter_def assms Let_def any_map_iff
  by (simp add: index_filter)

lemma drop_simplified_eq:
  "drop_simplified shps
     = (if length shps > 1 then filter (\<lambda>b. \<not> re_match simplified_pattern b) shps else shps)"
proof (cases "filter (re_match simplified_pattern) shps = []")
  case True
  then have "filter (\<lambda>b. \<not> re_match simplified_pattern b) shps = shps"
    by (auto simp: filter_empty_conv filter_id_conv)
  with True show ?thesis
    unfolding drop_simplified_def Let_def any_map_iff by simp
next
  case False
  then show ?thesis
    unfolding drop_simplified_def Let_def any_map_iff by (simp add: index_filter_not)
qed

lemma shapefile_level_pattern_digit:
  "last_chr level = Inr d \<Longrightarrow> is_digit d \<Longrightarrow> shapefile_level_pattern level = Inr (shapefile_level_rx (lit [d]))"
  using digit_plain[of d] by (simp add: shapefile_level_pattern_def interpolated_plain)

lemma pick_shapefile_refines:
  assumes sl: "\<forall>b \<in> set shps. single_line b"
    and q: "shapefile_level_pattern level = Inr q"
  shows "pick_shapefile shps level = Inr (selector_spec (re_match q) shps)"
proof -
  let ?shp1 = "if length shps > 1 \<and> filter (re_match q) shps \<noteq> [] then filter (re_match q) shps else shps"
  have sub: "set ?shp1 \<subseteq> set shps" by auto
  have f: "filter (\<lambda>b. \<not> re_match simplified_pattern b) ?shp1
           = filter (\<lambda>b. \<not> contains_ci ''simplified'' b) ?shp1"
    using sl sub by (intro filter_cong refl) (auto simp: simplified_match_iff)
  let ?shp2 = "if length ?shp1 > 1 then filter (\<lambda>b. \<not> contains_ci ''simplified'' b) ?shp1 else ?shp1"
  have d: "drop_simplified ?shp1 = ?shp2"
    unfolding drop_simplified_eq f ..
  have sel: "selector_spec (re_match q) shps = (case ?shp2 of [b] \<Rightarrow> Some b | _ \<Rightarrow> None)"
    unfolding selector_spec_def Let_def ..
  have one: "(if length xs \<noteq> 1 then Inr None else Inr (Some (xs ! 0)))
             = (Inr (case xs of [b] \<Rightarrow> Some b | _ \<Rightarrow> None) :: error + string option)" for xs :: "string list"
    by (cases xs rule: list.exhaust; cases "tl xs") auto
  show ?thesis
  proof (cases "shps = []")
    case True
    then show ?thesis by (simp add: pick_shapefile_def selector_spec_def)
  next
    case False
    then have "pick_shapefile shps level
               = (if length ?shp2 \<noteq> 1 then Inr None else Inr (Some (?shp2 ! 0)))"
      unfolding pick_shapefile_def depth_filter_eq[OF q] Let_def
      by (simp only: d sum.case length_0_conv if_False)
    then show ?thesis unfolding one sel .
  qed
qed

lemma drop_simplified_all:
  assumes df: "depth_filter shps level = Inr shp1"
    and many: "length shp1 > 1"
    and simp: "\<forall>b \<in> set shp1. contains_ci ''simplified'' b"
    and sl: "\<forall>b \<in> set shp1. single_line b"
  shows "drop_simplified shp1 = [] \<and> pick_shapefile shps level = Inr None"
proof -
  have "filter (\<lambda>b. \<not> re_match simplified_pattern b) shp1 = []"
    using simp sl by (auto simp: filter_empty_conv simplified_match_iff)
  with many have d: "drop_simplified shp1 = []"
    by (simp add: drop_simplified_eq)
  from df many have "shps \<noteq> []"
    by (auto simp: depth_filter_def)
  with df d have "pick_shapefile shps level = Inr None"
    by (simp add: pick_shapefile_def)
  with d show ?thesis by simp
qed


text \<open>
  Claim C4. For single-line paths and a level that ends in a digit \<open>d\<close>, the choice made by
  \<open>find_shapefile\<close> among the shapefiles of the archive is the one of the specification: with
  more than one file it first keeps those whose path follows the naming convention of the
  level, falling back to all of them when none does; only if more than one is still left does
  it leave out those whose path contains \<open>simplified\<close>; it returns the file that is left alone.
  In particular, of two \<open>admbnda\<close> files of \<open>adm2\<close>, one of them simplified, and one unrelated
  file it returns the \<open>admbnda\<close> file that is not simplified.
\<close>

theorem find_shapefile_tie_break:
  assumes "download res = Inr resource_file" and "extract resource_file = Inr shps"
    and "\<forall>b \<in> set shps. single_line b"
    and "last_chr level = Inr d" and "is_digit d"
  shows "find_shapefile download extract res level
           = Inr (selector_spec (re_match (shapefile_level_rx (lit [d]))) shps)
         \<and> pick_shapefile
               [''tmp/u/abc_admbnda_adm2_simplified.shp'', ''tmp/u/rivers.shp'',
                ''tmp/u/abc_admbnda_adm2.shp''] ''adm2''
             = Inr (Some ''tmp/u/abc_admbnda_adm2.shp'')"
proof
  have "pick_shapefile shps level = Inr (selector_spec (re_match (shapefile_level_rx (lit [d]))) shps)"
    using assms(3) shapefile_level_pattern_digit[OF assms(4,5)] by (rule pick_shapefile_refines)
  then show "find_shapefile download extract res level
               = Inr (selector_spec (re_match (shapefile_level_rx (lit [d]))) shps)"
    by (simp add: find_shapefile_def assms(1,2))
  show "pick_shapefile
          [''tmp/u/abc_admbnda_adm2_simplified.shp'', ''tmp/u/rivers.shp'',
           ''tmp/u/abc_admbnda_adm2.shp''] ''adm2''
        = Inr (Some ''tmp/u/abc_admbnda_adm2.shp'')"
    by (simp add: pick_shapefile_def depth_filter_def drop_simplified_def shapefile_level_pattern_def
        shapefile_level_rx_def simplified_pattern_def anywhere_def interpolated_def plain_def
        metachars_def last_chr_def re_match_def lit_def lower_chr_def newline_def)
qed

theorem find_shapefile_tie_break_witness:
  "find_shapefile (\<lambda>r. Inr (name r)) (\<lambda>f. Inr [''tmp/u/rivers.shp'', ''tmp/u/lakes.shp'']) 
      \<lparr>name = ''xyz_adm1_shp'', file_type = Some ''shp''\<rparr> ''adm1''
   = Inr (selector_spec (re_match (shapefile_level_rx (lit ''1''))) [''tmp/u/rivers.shp'', ''tmp/u/lakes.shp''])"
  using find_shapefile_tie_break [of "\<lambda>r. Inr (name r)" "\<lparr>name = ''xyz_adm1_shp'', file_type = Some ''shp''\<rparr>"
      "''xyz_adm1_shp''" "\<lambda>f. Inr [''tmp/u/rivers.shp'', ''tmp/u/lakes.shp'']"
      "[''tmp/u/rivers.shp'', ''tmp/u/lakes.shp'']" "''adm1''" "CHR ''1''"]
  by (simp add: single_line_def newline_def last_chr_def is_digit_def)

text \<open>
  Claim C10. If more than one candidate is left after the filter on the level and the path of
  every one of them contains \<open>simplified\<close>, then leaving out the simplified files leaves
  nothing and \<open>find_shapefile\<close> returns no file: there is no fall-back to one of the simplified
  files.
\<close>

theorem find_shapefile_all_simplified:
  assumes "download res = Inr resource_file" and "extract resource_file = Inr shps"
    and "depth_filter shps level = Inr shp1"
    and "length shp1 > 1"
    and "\<forall>b \<in> set shp1. contains_ci ''simplified'' b"
    and "\<forall>b \<in> set shp1. single_line b"
  shows "drop_simplified shp1 = [] \<and> find_shapefile download extract res level = Inr None"
  using drop_simplified_all[OF assms(3-6)] by (simp add: find_shapefile_def assms(1,2))

theorem find_shapefile_all_simplified_witness:
  "drop_simplified [''t/a_simplified.shp'', ''t/b_Simplified.shp''] = []
   \<and> find_shapefile (\<lambda>r. Inr (name r)) (\<lambda>f. Inr [''t/a_simplified.shp'', ''t/b_Simplified.shp''])
        \<lparr>name = ''xyz_adm1_shp'', file_type = Some ''shp''\<rparr> ''adm1'' = Inr None"
proof -
  have df: "depth_filter [''t/a_simplified.shp'', ''t/b_Simplified.shp''] ''adm1''
            = Inr [''t/a_simplified.shp'', ''t/b_Simplified.shp'']"
    by (simp add: depth_filter_def shapefile_level_pattern_def shapefile_level_rx_def
        interpolated_def plain_def metachars_def last_chr_def re_match_def lit_def lower_chr_def
        newline_def)
  have sl: "\<forall>b \<in> set [''t/a_simplified.shp'', ''t/b_Simplified.shp'']. single_line b"
    by (simp add: single_line_def newline_def)
  have "\<forall>b \<in> set [''t/a_simplified.shp'', ''t/b_Simplified.shp'']. re_match simplified_pattern b"
    by (simp add: simplified_pattern_def anywhere_def re_match_def lit_def lower_chr_def newline_def
        char_of_eq_iff)
  with sl have si: "\<forall>b \<in> set [''t/a_simplified.shp'', ''t/b_Simplified.shp'']. contains_ci ''simplified'' b"
    by (simp add: simplified_match_iff)
  show ?thesis
    using find_shapefile_all_simplified [of "\<lambda>r. Inr (name r)"
        "\<lparr>name = ''xyz_adm1_shp'', file_type = Some ''shp''\<rparr>" "''xyz_adm1_shp''"
        "\<lambda>f. Inr [''t/a_simplified.shp'', ''t/b_Simplified.shp'']"
        "[''t/a_simplified.shp'', ''t/b_Simplified.shp'']" "''adm1''"
        "[''t/a_simplified.shp'', ''t/b_Simplified.shp'']", OF _ _ df _ si sl]
    by simp
qed

section \<open>Properties of the field names\<close>












lemma lower_geometry: "lower ''geometry'' = ''geometry''"
  by (simp add: lower_def lower_chr_def)

lemma adm_not_geometry:
  "lower (adm_ref k) \<noteq> ''geometry''" "lower (adm_pcode k) \<noteq> ''geometry''"
  "lower ''alpha_3'' \<noteq> ''geometry''" "lower ''ADM0_REF'' \<noteq> ''geometry''"
  by (simp_all add: adm_ref_def adm_pcode_def lower_def lower_chr_def)

section \<open>Properties of the Field Harmonizer\<close>

lemma map_fst_assign_dtype:
  "map fst (assign_dtype f d cols) = (if f \<in> set (map fst cols) then map fst cols else map fst cols @ [f])"
proof -
  have "map fst (map (\<lambda>(n, t). if n = f then (n, d) else (n, t)) cols) = map fst cols"
    by (induction cols) auto
  then show ?thesis by (simp add: assign_dtype_def)
qed

lemma names_assign_dtype: "fst ` set (assign_dtype f d cols) = insert f (fst ` set cols)"
proof -
  have "set (map fst (assign_dtype f d cols)) = insert f (set (map fst cols))"
    unfolding map_fst_assign_dtype by auto
  then show ?thesis by simp
qed

lemma names_set_scalar: "set (names (set_scalar f v lyr)) = insert f (set (names lyr))"
  by (simp add: names_def set_scalar_def names_assign_dtype)

lemma names_copy_column:
  assumes "copy_column dst src lyr = Inr lyr'"
  shows "set (names lyr') = insert dst (set (names lyr))"
proof (cases "map_of (columns lyr) src")
  case None
  with assms show ?thesis by (simp add: copy_column_def)
next
  case (Some d)
  with assms have "columns lyr' = assign_dtype dst d (columns lyr)"
    by (auto simp: copy_column_def)
  then show ?thesis by (simp add: names_def names_assign_dtype)
qed

lemma names_stringify_column:
  assumes "stringify_column dst src lyr = Inr lyr'"
  shows "set (names lyr') = insert dst (set (names lyr))"
proof (cases "convert_rows dst src (rows lyr)")
  case (Inl e)
  with assms show ?thesis by (simp add: stringify_column_def)
next
  case (Inr rs)
  with assms have "columns lyr' = assign_dtype dst Object (columns lyr)"
    by (auto simp: stringify_column_def)
  then show ?thesis by (simp add: names_def names_assign_dtype)
qed

lemma names_assign_ref:
  assumes "assign_ref P N F l lyr = Inr lyr'"
  shows "set (names lyr') = insert (adm_ref l) (set (names lyr))"
proof (cases "unset (name_source P N F l)")
  case True
  with assms have "lyr' = set_scalar (adm_ref l) [] lyr" by (simp add: assign_ref_def)
  then show ?thesis by (simp add: names_set_scalar)
next
  case False
  with assms have "copy_column (adm_ref l) (the (name_source P N F l)) lyr = Inr lyr'"
    by (simp add: assign_ref_def)
  then show ?thesis by (rule names_copy_column)
qed

lemma names_assign_pcode:
  assumes "assign_pcode P N F l lyr = Inr lyr'"
  shows "set (names lyr') = insert (adm_pcode l) (set (names lyr))"
proof (cases "unset (pcode_source P N F l)")
  case True
  with assms have "lyr' = set_scalar (adm_pcode l) [] lyr" by (simp add: assign_pcode_def)
  then show ?thesis by (simp add: names_set_scalar)
next
  case False
  note us = this
  show ?thesis
  proof (cases "map_of (columns lyr) (the (pcode_source P N F l))")
    case None
    with us assms show ?thesis by (simp add: assign_pcode_def)
  next
    case (Some d)
    show ?thesis
    proof (cases "d = Numeric")
      case True
      with us Some assms have "stringify_column (adm_pcode l) (the (pcode_source P N F l)) lyr = Inr lyr'"
        by (simp add: assign_pcode_def)
      then show ?thesis by (rule names_stringify_column)
    next
      case False
      with us Some assms have "copy_column (adm_pcode l) (the (pcode_source P N F l)) lyr = Inr lyr'"
        by (simp add: assign_pcode_def)
      then show ?thesis by (rule names_copy_column)
    qed
  qed
qed

lemma harmonize_levelE:
  assumes "harmonize_level P N F l lyr = Inr lyr'"
  obtains m where "assign_ref P N F l lyr = Inr m" "assign_pcode P N F l m = Inr lyr'"
  using assms unfolding harmonize_level_def by (cases "assign_ref P N F l lyr") simp_all

lemma names_harmonize_level:
  assumes "harmonize_level P N F l lyr = Inr lyr'"
  shows "set (names lyr') = {adm_ref l, adm_pcode l} \<union> set (names lyr)"
proof -
  from assms obtain m where "assign_ref P N F l lyr = Inr m" "assign_pcode P N F l m = Inr lyr'"
    by (rule harmonize_levelE)
  from names_assign_ref[OF this(1)] names_assign_pcode[OF this(2)] show ?thesis by auto
qed

lemma harmonize_levels_ConsE:
  assumes "harmonize_levels P N F (l # ls) lyr = Inr lyr'"
  obtains m where "harmonize_level P N F l lyr = Inr m" "harmonize_levels P N F ls m = Inr lyr'"
  using assms by (cases "harmonize_level P N F l lyr") simp_all

lemma names_harmonize_levels:
  "harmonize_levels P N F ls lyr = Inr lyr'
   \<Longrightarrow> set (names lyr') = set (names lyr) \<union> (\<Union>l \<in> set ls. {adm_ref l, adm_pcode l})"
proof (induction ls arbitrary: lyr)
  case Nil
  then show ?case by simp
next
  case (Cons l ls)
  from Cons.prems obtain m where m: "harmonize_level P N F l lyr = Inr m"
    and r: "harmonize_levels P N F ls m = Inr lyr'"
    by (rule harmonize_levels_ConsE)
  from Cons.IH[OF r] names_harmonize_level[OF m] show ?case by auto
qed

lemma names_drop_fields:
  "set (names (drop_fields df keep)) = {f \<in> set (names df). f \<in> set keep \<or> lower f = ''geometry''}"
  by (auto simp: drop_fields_def names_def Let_def)

lemma names_dissolve:
  assumes "dissolve uu by df = Inr out"
  shows "set (names out) = set (names df)" and "set by \<subseteq> set (names df)" and "''geometry'' \<notin> set by"
    and "''geometry'' \<in> set (names df)"
proof -
  from assms have sb: "set by \<subseteq> set (names df)" and g: "''geometry'' \<in> set (names df)"
    and ng: "''geometry'' \<notin> set by"
    by (auto simp: dissolve_def split: if_splits)
  from assms have "names out = by @ [''geometry''] @ map fst [c \<leftarrow> columns df. fst c \<notin> set by \<and> fst c \<noteq> ''geometry'']"
    by (auto simp: dissolve_def Let_def names_def comp_def split: if_splits)
  then have "set (names out) = set by \<union> {''geometry''} \<union> {f \<in> set (names df). f \<notin> set by \<and> f \<noteq> ''geometry''}"
    by (auto simp: names_def)
  with sb g show "set (names out) = set (names df)" by auto
  show "set by \<subseteq> set (names df)" by fact
  show "''geometry'' \<notin> set by" by fact
  show "''geometry'' \<in> set (names df)" by fact
qed


lemma calculate_fieldsE:
  assumes "calculate_fields uu P N boundary_lyr iso3 country_name req_fields level = Inr out"
  obtains alpha_3 d lyr' where "upper iso3 = Some alpha_3" and "level_depth level = Inr d"
    and "harmonize_levels P N
           (names (assign_country alpha_3 country_name boundary_lyr)) [1..<d + 1]
           (assign_country alpha_3 country_name boundary_lyr) = Inr lyr'"
    and "dissolve uu req_fields (drop_fields lyr' req_fields) = Inr out"
proof (cases "upper iso3")
  case None
  with assms show ?thesis by (simp add: calculate_fields_def)
next
  case (Some alpha_3)
  note u = this
  show ?thesis
  proof (cases "level_depth level")
    case (Inl e)
    with assms u show ?thesis by (simp add: calculate_fields_def)
  next
    case (Inr d)
    note d = this
    let ?lyr = "assign_country alpha_3 country_name boundary_lyr"
    show ?thesis
    proof (cases "harmonize_levels P N (names ?lyr) [1..<d + 1] ?lyr")
      case (Inl e)
      with assms u d show ?thesis by (simp add: calculate_fields_def Let_def)
    next
      case (Inr lyr')
      with assms u d have "dissolve uu req_fields (drop_fields lyr' req_fields) = Inr out"
        by (simp add: calculate_fields_def Let_def)
      with u d Inr show ?thesis by (rule that)
    qed
  qed
qed

lemma calculate_fields_attributes:
  assumes "calculate_fields uu P N boundary_lyr iso3 country_name req_fields level = Inr out"
  shows "set (attributes out)
         = set req_fields \<union> {f \<in> set (attributes boundary_lyr). lower f = ''geometry''}"
proof -
  from assms obtain alpha_3 d lyr' where d: "level_depth level = Inr d"
    and h: "harmonize_levels P N (names (assign_country alpha_3 country_name boundary_lyr)) [1..<d + 1]
              (assign_country alpha_3 country_name boundary_lyr) = Inr lyr'"
    and o: "dissolve uu req_fields (drop_fields lyr' req_fields) = Inr out"
    by (rule calculate_fieldsE)
  let ?lyr = "assign_country alpha_3 country_name boundary_lyr"
  have n': "set (names lyr') = set (names boundary_lyr) \<union> {''alpha_3'', ''ADM0_REF''}
              \<union> (\<Union>l \<in> {1..<d + 1}. {adm_ref l, adm_pcode l})"
  proof -
    have "set (names lyr') = set (names ?lyr) \<union> (\<Union>l \<in> set [1..<d + 1]. {adm_ref l, adm_pcode l})"
      by (rule names_harmonize_levels[OF h])
    also have "set (names ?lyr) = set (names boundary_lyr) \<union> {''alpha_3'', ''ADM0_REF''}"
      unfolding assign_country_def names_set_scalar by blast
    also have "set [1..<d + 1] = {1..<d + 1}"
      by (rule set_upt)
    finally show ?thesis .
  qed
  have geo: "{f \<in> set (names lyr'). lower f = ''geometry''} = {f \<in> set (names boundary_lyr). lower f = ''geometry''}"
    unfolding n' using adm_not_geometry by blast
  from names_dissolve[OF o]
  have no: "set (names out) = {f \<in> set (names lyr'). f \<in> set req_fields \<or> lower f = ''geometry''}"
    and sub: "set req_fields \<subseteq> {f \<in> set (names lyr'). f \<in> set req_fields \<or> lower f = ''geometry''}"
    and ng: "''geometry'' \<notin> set req_fields"
    by (simp_all add: names_drop_fields)
  have "set (attributes out) = set (names out) - {''geometry''}"
    by (auto simp: attributes_def)
  also have "\<dots> = set req_fields \<union> ({f \<in> set (names lyr'). lower f = ''geometry''} - {''geometry''})"
    unfolding no using sub ng by blast
  also have "\<dots> = set req_fields \<union> {f \<in> set (attributes boundary_lyr). lower f = ''geometry''}"
    unfolding geo by (auto simp: attributes_def)
  finally show ?thesis .
qed
















lemma list_all2_setD2:
  assumes "list_all2 R xs ys" and "y \<in> set ys"
  shows "\<exists>x \<in> set xs. R x y"
  using assms by (induction rule: list_all2_induct) auto









text \<open>
  Claim C1, as amended. Whenever \<open>calculate_fields\<close> returns a layer, the attributes of that
  layer are the fields of the canonical list passed in together with the attributes of the
  source layer whose name is \<open>geometry\<close> up to the case of its letters (\<open>drop_fields\<close> keeps
  them); every canonical field is present and no other source column remains.
\<close>

theorem calculate_fields_schema:
  assumes "calculate_fields unary_union pcode_headers name_headers boundary_lyr iso3 country_name req_fields level = Inr out"
  shows "set (attributes out)
         = set req_fields \<union> {f \<in> set (attributes boundary_lyr). lower f = ''geometry''}"
  using assms by (rule calculate_fields_attributes)

theorem calculate_fields_schema_witness:
  "set (attributes (projr
     (calculate_fields (\<lambda>gs. ()) [''ADM#_PCODE''] [''ADM#_EN'']
        \<lparr>columns = [(''ADM1_EN'', Object), (''Shape_Area'', Numeric), (''geometry'', Geometry)],
         rows = [(\<lambda>f. Null)(''ADM1_EN'' := Str ''North'', ''Shape_Area'' := Num (5 / 2),
                            ''geometry'' := Geom ())]\<rparr>
        ''ABC'' ''Abcland'' (canonical_fields 1) ''adm1'')))
   = set (canonical_fields 1)
     \<union> {f \<in> set (attributes
                   \<lparr>columns = [(''ADM1_EN'', Object), (''Shape_Area'', Numeric), (''geometry'', Geometry)],
                    rows = [(\<lambda>f. Null)(''ADM1_EN'' := Str ''North'', ''Shape_Area'' := Num (5 / 2),
                                       ''geometry'' := Geom ())]\<rparr>). lower f = ''geometry''}"
proof -
  have "\<not> isl (calculate_fields (\<lambda>gs. ()) [''ADM#_PCODE''] [''ADM#_EN'']
        \<lparr>columns = [(''ADM1_EN'', Object), (''Shape_Area'', Numeric), (''geometry'', Geometry)],
         rows = [(\<lambda>f. Null)(''ADM1_EN'' := Str ''North'', ''Shape_Area'' := Num (5 / 2),
                            ''geometry'' := Geom ())]\<rparr>
        ''ABC'' ''Abcland'' (canonical_fields 1) ''adm1'')"
    by code_simp
  then have "calculate_fields (\<lambda>gs. ()) [''ADM#_PCODE''] [''ADM#_EN'']
        \<lparr>columns = [(''ADM1_EN'', Object), (''Shape_Area'', Numeric), (''geometry'', Geometry)],
         rows = [(\<lambda>f. Null)(''ADM1_EN'' := Str ''North'', ''Shape_Area'' := Num (5 / 2),
                            ''geometry'' := Geom ())]\<rparr>
        ''ABC'' ''Abcland'' (canonical_fields 1) ''adm1''
     = Inr (projr (calculate_fields (\<lambda>gs. ()) [''ADM#_PCODE''] [''ADM#_EN'']
        \<lparr>columns = [(''ADM1_EN'', Object), (''Shape_Area'', Numeric), (''geometry'', Geometry)],
         rows = [(\<lambda>f. Null)(''ADM1_EN'' := Str ''North'', ''Shape_Area'' := Num (5 / 2),
                            ''geometry'' := Geom ())]\<rparr>
        ''ABC'' ''Abcland'' (canonical_fields 1) ''adm1''))"
    by simp
  then show ?thesis
    by (rule calculate_fields_schema)
qed

theorem calculate_fields_schema_counterexample:
  "map_sum id attributes
     (calculate_fields (\<lambda>gs. ()) [''ADM#_PCODE''] [''ADM#_EN'']
        \<lparr>columns = [(''ADM1_EN'', Object), (''GEOMETRY'', Object), (''geometry'', Geometry)],
         rows = [(\<lambda>f. Null)(''ADM1_EN'' := Str ''North'', ''GEOMETRY'' := Str ''polygon'',
                            ''geometry'' := Geom ())]\<rparr>
        ''ABC'' ''Abcland'' (canonical_fields 1) ''adm1'')
   = Inr [''alpha_3'', ''ADM0_REF'', ''ADM1_PCODE'', ''ADM1_REF'', ''GEOMETRY'']
   \<and> ''GEOMETRY'' \<notin> set (canonical_fields 1)"
  by code_simp




section \<open>Properties of the Global Merger\<close>

lemma names_append_layer: "set (names a) \<subseteq> set (names (append_layer a b))"
proof -
  have "map fst (map (\<lambda>(n, t). case map_of (columns b) n of None \<Rightarrow> (n, t)
                        | Some t' \<Rightarrow> (n, if t = t' then t else Object)) cs) = map fst cs" for cs
    by (induction cs) (auto split: option.splits)
  then show ?thesis by (simp add: names_def append_layer_def)
qed

lemma sort_valuesE:
  assumes "sort_values f df = Inr df'"
  obtains "f \<in> set (names df)" "comparable [c \<leftarrow> map (\<lambda>r. r f) (rows df). c \<noteq> Null]"
    "df' = \<lparr>columns = columns df, rows = sort_key (\<lambda>r. rank (r f)) (rows df)\<rparr>"
  using assms by (auto simp: sort_values_def split: if_splits)

lemma replace_country_boundariesE:
  assumes "replace_country_boundaries B new iso3 level gt = Inr B'"
  obtains part c where "B (partition_key level gt) = Some part"
    and "''alpha_3'' \<in> set (names part)"
    and "last_chr level = Inr c"
    and "level_pcode c \<in> set (names (append_layer \<lparr>columns = columns part, rows = records_besides iso3 part\<rparr> new))"
    and "comparable [x \<leftarrow> map (\<lambda>r. r (level_pcode c)) (records_besides iso3 part @ rows new). x \<noteq> Null]"
    and "B' = B(partition_key level gt \<mapsto>
            \<lparr>columns = columns (append_layer \<lparr>columns = columns part, rows = records_besides iso3 part\<rparr> new),
             rows = sort_key (\<lambda>r. rank (r (level_pcode c))) (records_besides iso3 part @ rows new)\<rparr>)"
proof (cases "B (partition_key level gt)")
  case None
  with assms show ?thesis by (simp add: replace_country_boundaries_def)
next
  case (Some part)
  note part = this
  let ?gb = "append_layer \<lparr>columns = columns part, rows = records_besides iso3 part\<rparr> new"
  from assms part have a3: "''alpha_3'' \<in> set (names part)"
    by (cases "''alpha_3'' \<in> set (names part)") (simp_all add: replace_country_boundaries_def)
  show ?thesis
  proof (cases "last_chr level")
    case (Inl e)
    with assms part a3 show ?thesis
      by (simp add: replace_country_boundaries_def Let_def)
  next
    case (Inr c)
    note c = this
    show ?thesis
    proof (cases "sort_values (level_pcode c) ?gb")
      case (Inl e)
      with assms part a3 c show ?thesis
        by (simp add: replace_country_boundaries_def Let_def records_besides_def)
    next
      case (Inr sb)
      with assms part a3 c have B': "B' = B(partition_key level gt \<mapsto> sb)"
        by (simp add: replace_country_boundaries_def Let_def records_besides_def)
      from Inr show ?thesis
      proof (rule sort_valuesE)
        assume 1: "level_pcode c \<in> set (names ?gb)"
          and 2: "comparable [x \<leftarrow> map (\<lambda>r. r (level_pcode c)) (rows ?gb). x \<noteq> Null]"
          and 3: "sb = \<lparr>columns = columns ?gb, rows = sort_key (\<lambda>r. rank (r (level_pcode c))) (rows ?gb)\<rparr>"
        have r: "rows ?gb = records_besides iso3 part @ rows new"
          by (simp add: append_layer_def)
        show ?thesis
          by (rule that[OF part a3 c 1]) (use 2 3 B' r in simp_all)
      qed
    qed
  qed
qed

lemma merged_partition:
  assumes "replace_country_boundaries B new iso3 level gt = Inr B'"
    and "last_chr level = Inr c"
  obtains part p' where "B (partition_key level gt) = Some part"
    and "B' (partition_key level gt) = Some p'"
    and "\<forall>k. k \<noteq> partition_key level gt \<longrightarrow> B' k = B k"
    and "rows p' = sort_key (\<lambda>r. rank (r (level_pcode c))) (records_besides iso3 part @ rows new)"
    and "''alpha_3'' \<in> set (names p')" and "level_pcode c \<in> set (names p')"
proof -
  from assms(1) obtain part c' where part: "B (partition_key level gt) = Some part"
    and a3: "''alpha_3'' \<in> set (names part)"
    and c': "last_chr level = Inr c'"
    and pc: "level_pcode c' \<in> set (names (append_layer \<lparr>columns = columns part, rows = records_besides iso3 part\<rparr> new))"
    and B': "B' = B(partition_key level gt \<mapsto>
            \<lparr>columns = columns (append_layer \<lparr>columns = columns part, rows = records_besides iso3 part\<rparr> new),
             rows = sort_key (\<lambda>r. rank (r (level_pcode c'))) (records_besides iso3 part @ rows new)\<rparr>)"
    by (rule replace_country_boundariesE)
  from c' assms(2) have cc: "c' = c" by simp
  let ?p = "\<lparr>columns = columns (append_layer \<lparr>columns = columns part, rows = records_besides iso3 part\<rparr> new),
             rows = sort_key (\<lambda>r. rank (r (level_pcode c))) (records_besides iso3 part @ rows new)\<rparr>"
  have n: "names ?p = names (append_layer \<lparr>columns = columns part, rows = records_besides iso3 part\<rparr> new)"
    by (simp add: names_def)
  have "set (names \<lparr>columns = columns part, rows = records_besides iso3 part\<rparr>) \<subseteq> set (names ?p)"
    unfolding n by (rule names_append_layer)
  with a3 have a3': "''alpha_3'' \<in> set (names ?p)" by (auto simp: names_def)
  have pc': "level_pcode c \<in> set (names ?p)"
    unfolding n using pc cc by simp
  have 1: "B' (partition_key level gt) = Some ?p"
    unfolding B' cc by simp
  have 2: "\<forall>k. k \<noteq> partition_key level gt \<longrightarrow> B' k = B k"
    unfolding B' by simp
  have 3: "rows ?p = sort_key (\<lambda>r. rank (r (level_pcode c))) (records_besides iso3 part @ rows new)"
    by simp
  show ?thesis
    by (rule that[OF part 1 2 3 a3' pc'])
qed

lemma sorted_by_merged:
  "rows p = sort_key (\<lambda>r. rank (r f)) xs \<Longrightarrow> sorted_by f p"
  by (simp add: sorted_by_def)

lemma mset_filter_sort_key: "mset (filter P (sort_key k xs)) = mset (filter P xs)"
proof -
  have "mset (filter P (sort_key k xs)) = filter_mset P (mset (sort_key k xs))"
    by (rule mset_filter)
  also have "\<dots> = filter_mset P (mset xs)"
    by (simp only: mset_sort)
  also have "\<dots> = mset (filter P xs)"
    by (rule mset_filter[symmetric])
  finally show ?thesis .
qed

lemma mset_records_of_sorted:
  assumes "rows p = sort_key k (records_besides iso3 part @ new)"
    and "\<forall>r \<in> set new. r ''alpha_3'' = Str iso3"
  shows "mset (records_of iso3 p) = mset new"
    and "mset (records_besides iso3 p) = mset (records_besides iso3 part)"
proof -
  have a: "filter (\<lambda>r. r ''alpha_3'' = Str iso3) (records_besides iso3 part) = []"
    by (simp add: records_besides_def)
  have b: "filter (\<lambda>r. r ''alpha_3'' = Str iso3) new = new"
    using assms(2) by (simp add: filter_id_conv)
  have c: "filter (\<lambda>r. r ''alpha_3'' \<noteq> Str iso3) (records_besides iso3 part) = records_besides iso3 part"
    by (simp add: records_besides_def)
  have d: "filter (\<lambda>r. r ''alpha_3'' \<noteq> Str iso3) new = []"
    using assms(2) by (simp add: filter_empty_conv)
  have "mset (records_of iso3 p) = mset (filter (\<lambda>r. r ''alpha_3'' = Str iso3) (records_besides iso3 part @ new))"
    unfolding records_of_def assms(1) by (rule mset_filter_sort_key)
  then show "mset (records_of iso3 p) = mset new"
    by (simp only: filter_append a b append_Nil)
  have "mset (records_besides iso3 p) = mset (filter (\<lambda>r. r ''alpha_3'' \<noteq> Str iso3) (records_besides iso3 part @ new))"
    unfolding records_besides_def[of iso3 p] assms(1) by (rule mset_filter_sort_key)
  then show "mset (records_besides iso3 p) = mset (records_besides iso3 part)"
    by (simp only: filter_append c d append_Nil2)
qed

lemma comparable_mset:
  assumes "mset xs = mset ys"
  shows "comparable xs = comparable ys"
proof -
  from assms have "length xs = length ys" by (rule mset_eq_length)
  moreover from assms have "set xs = set ys" by (rule mset_eq_setD)
  ultimately show ?thesis by (simp add: comparable_def)
qed

lemma mset_keys:
  assumes "mset xs = mset ys"
  shows "mset [x \<leftarrow> map f xs. P x] = mset [x \<leftarrow> map f ys. P x]"
proof -
  have "filter_mset P (image_mset f (mset xs)) = filter_mset P (image_mset f (mset ys))"
    by (simp only: assms)
  then show ?thesis by (simp only: mset_filter mset_map)
qed

lemma merge_again:
  assumes m1: "replace_country_boundaries B new iso3 level gt = Inr B1"
    and own: "\<forall>r \<in> set (rows new). r ''alpha_3'' = Str iso3"
  shows "\<exists>B2. replace_country_boundaries B1 new iso3 level gt = Inr B2"
proof -
  from m1 obtain part c where part: "B (partition_key level gt) = Some part"
    and "''alpha_3'' \<in> set (names part)"
    and c: "last_chr level = Inr c"
    and "level_pcode c \<in> set (names (append_layer \<lparr>columns = columns part, rows = records_besides iso3 part\<rparr> new))"
    and cmp: "comparable [x \<leftarrow> map (\<lambda>r. r (level_pcode c)) (records_besides iso3 part @ rows new). x \<noteq> Null]"
    and "B1 = B(partition_key level gt \<mapsto>
            \<lparr>columns = columns (append_layer \<lparr>columns = columns part, rows = records_besides iso3 part\<rparr> new),
             rows = sort_key (\<lambda>r. rank (r (level_pcode c))) (records_besides iso3 part @ rows new)\<rparr>)"
    by (rule replace_country_boundariesE)
  from m1 c obtain part' p1 where part': "B (partition_key level gt) = Some part'"
    and p1: "B1 (partition_key level gt) = Some p1"
    and "\<forall>k. k \<noteq> partition_key level gt \<longrightarrow> B1 k = B k"
    and rows1: "rows p1 = sort_key (\<lambda>r. rank (r (level_pcode c))) (records_besides iso3 part' @ rows new)"
    and a3: "''alpha_3'' \<in> set (names p1)" and pc: "level_pcode c \<in> set (names p1)"
    by (rule merged_partition)
  from part part' have pp: "part' = part" by simp
  let ?gb = "append_layer \<lparr>columns = columns p1, rows = [r \<leftarrow> rows p1. r ''alpha_3'' \<noteq> Str iso3]\<rparr> new"
  have "set (names \<lparr>columns = columns p1, rows = [r \<leftarrow> rows p1. r ''alpha_3'' \<noteq> Str iso3]\<rparr>) \<subseteq> set (names ?gb)"
    by (rule names_append_layer)
  with pc have pc': "level_pcode c \<in> set (names ?gb)" by (auto simp: names_def)
  have rg: "rows ?gb = records_besides iso3 p1 @ rows new"
    by (simp add: append_layer_def records_besides_def)
  have "mset (records_besides iso3 p1) = mset (records_besides iso3 part)"
    using rows1[unfolded pp] own by (rule mset_records_of_sorted(2))
  then have "mset (rows ?gb) = mset (records_besides iso3 part @ rows new)"
    unfolding rg by simp
  then have "mset [x \<leftarrow> map (\<lambda>r. r (level_pcode c)) (rows ?gb). x \<noteq> Null]
             = mset [x \<leftarrow> map (\<lambda>r. r (level_pcode c)) (records_besides iso3 part @ rows new). x \<noteq> Null]"
    by (rule mset_keys)
  from comparable_mset[OF this] cmp
  have cmp': "comparable [x \<leftarrow> map (\<lambda>r. r (level_pcode c)) (rows ?gb). x \<noteq> Null]" by simp
  have "sort_values (level_pcode c) ?gb
        = Inr \<lparr>columns = columns ?gb, rows = sort_key (\<lambda>r. rank (r (level_pcode c))) (rows ?gb)\<rparr>"
    using pc' cmp' by (simp add: sort_values_def)
  then have "replace_country_boundaries B1 new iso3 level gt
             = Inr (B1(partition_key level gt \<mapsto>
                 \<lparr>columns = columns ?gb, rows = sort_key (\<lambda>r. rank (r (level_pcode c))) (rows ?gb)\<rparr>))"
    using p1 a3 c by (simp add: replace_country_boundaries_def Let_def)
  then show ?thesis by blast
qed

lemma merge_idempotent:
  assumes m1: "replace_country_boundaries B new iso3 level gt = Inr B1"
    and own: "\<forall>r \<in> set (rows new). r ''alpha_3'' = Str iso3"
    and c: "last_chr level = Inr c"
  shows "\<exists>B2 p1 p2. replace_country_boundaries B1 new iso3 level gt = Inr B2
           \<and> B1 (partition_key level gt) = Some p1 \<and> B2 (partition_key level gt) = Some p2
           \<and> sorted_by (level_pcode c) p1 \<and> sorted_by (level_pcode c) p2
           \<and> mset (records_of iso3 p1) = mset (rows new)
           \<and> mset (records_of iso3 p2) = mset (rows new)"
proof -
  from merge_again[OF m1 own] obtain B2 where m2: "replace_country_boundaries B1 new iso3 level gt = Inr B2"
    by blast
  from m1 c obtain part p1 where "B (partition_key level gt) = Some part"
    and p1: "B1 (partition_key level gt) = Some p1"
    and "\<forall>k. k \<noteq> partition_key level gt \<longrightarrow> B1 k = B k"
    and rows1: "rows p1 = sort_key (\<lambda>r. rank (r (level_pcode c))) (records_besides iso3 part @ rows new)"
    and "''alpha_3'' \<in> set (names p1)" and "level_pcode c \<in> set (names p1)"
    by (rule merged_partition)
  from m2 c obtain part2 p2 where part2: "B1 (partition_key level gt) = Some part2"
    and p2: "B2 (partition_key level gt) = Some p2"
    and "\<forall>k. k \<noteq> partition_key level gt \<longrightarrow> B2 k = B1 k"
    and rows2: "rows p2 = sort_key (\<lambda>r. rank (r (level_pcode c))) (records_besides iso3 part2 @ rows new)"
    and "''alpha_3'' \<in> set (names p2)" and "level_pcode c \<in> set (names p2)"
    by (rule merged_partition)
  have "sorted_by (level_pcode c) p1" using rows1 by (rule sorted_by_merged)
  moreover have "sorted_by (level_pcode c) p2" using rows2 by (rule sorted_by_merged)
  moreover have "mset (records_of iso3 p1) = mset (rows new)"
    using rows1 own by (rule mset_records_of_sorted(1))
  moreover have "mset (records_of iso3 p2) = mset (rows new)"
    using rows2 own by (rule mset_records_of_sorted(1))
  ultimately show ?thesis using m2 p1 p2 by blast
qed

lemma merge_frame:
  assumes m: "replace_country_boundaries B new iso3 level gt = Inr B'"
    and own: "\<forall>r \<in> set (rows new). r ''alpha_3'' = Str iso3"
  shows "\<exists>p p'. B (partition_key level gt) = Some p \<and> B' (partition_key level gt) = Some p'
           \<and> mset (records_besides iso3 p') = mset (records_besides iso3 p)"
proof -
  have "\<exists>c. last_chr level = Inr c"
    using m by (rule replace_country_boundariesE) blast
  then obtain c where c: "last_chr level = Inr c" by blast
  from m c obtain part p' where p: "B (partition_key level gt) = Some part"
    and p': "B' (partition_key level gt) = Some p'"
    and "\<forall>k. k \<noteq> partition_key level gt \<longrightarrow> B' k = B k"
    and rows': "rows p' = sort_key (\<lambda>r. rank (r (level_pcode c))) (records_besides iso3 part @ rows new)"
    and "''alpha_3'' \<in> set (names p')" and "level_pcode c \<in> set (names p')"
    by (rule merged_partition)
  have "mset (records_besides iso3 p') = mset (records_besides iso3 part)"
    using rows' own by (rule mset_records_of_sorted(2))
  with p p' show ?thesis by blast
qed

lemma merge_sorted:
  assumes m: "replace_country_boundaries B new iso3 level gt = Inr B'"
    and c: "last_chr level = Inr c"
  shows "(\<exists>p'. B' (partition_key level gt) = Some p' \<and> sorted_by (level_pcode c) p')
         \<and> (\<forall>k. k \<noteq> partition_key level gt \<longrightarrow> B' k = B k)"
proof -
  from m c obtain part p' where "B (partition_key level gt) = Some part"
    and p': "B' (partition_key level gt) = Some p'"
    and others: "\<forall>k. k \<noteq> partition_key level gt \<longrightarrow> B' k = B k"
    and rows': "rows p' = sort_key (\<lambda>r. rank (r (level_pcode c))) (records_besides iso3 part @ rows new)"
    and "''alpha_3'' \<in> set (names p')" and "level_pcode c \<in> set (names p')"
    by (rule merged_partition)
  from rows' have "sorted_by (level_pcode c) p'" by (rule sorted_by_merged)
  with p' others show ?thesis by blast
qed

text \<open>
  Claim C5. Let every record of the country's layer carry the country code, and let a merge of
  the layer into the partition of the level and geometry kind succeed. Then a second merge
  of the same layer succeeds as well; after each of the two merges the partition is in
  ascending order of the pcode field of the level, and the records of the country in it are
  the records of the layer, each exactly once.
\<close>

theorem merge_idempotence:
  assumes "replace_country_boundaries boundaries new_boundaries iso3 level geom_type = Inr boundaries1"
    and "\<forall>r \<in> set (rows new_boundaries). r ''alpha_3'' = Str iso3"
    and "last_chr level = Inr c"
  shows "\<exists>boundaries2 p1 p2.
           replace_country_boundaries boundaries1 new_boundaries iso3 level geom_type = Inr boundaries2
           \<and> boundaries1 (partition_key level geom_type) = Some p1
           \<and> boundaries2 (partition_key level geom_type) = Some p2
           \<and> sorted_by (level_pcode c) p1 \<and> sorted_by (level_pcode c) p2
           \<and> mset (records_of iso3 p1) = mset (rows new_boundaries)
           \<and> mset (records_of iso3 p2) = mset (rows new_boundaries)"
  using assms by (rule merge_idempotent)

theorem merge_idempotence_witness:
  "\<exists>boundaries2 p1 p2.
     replace_country_boundaries
       (projr (replace_country_boundaries
          [''adm1_polygon'' \<mapsto>
             \<lparr>columns = [(''alpha_3'', Object), (''ADM1_PCODE'', Object), (''geometry'', Geometry)],
              rows = [(\<lambda>f. Null)(''alpha_3'' := Str ''BBB'', ''ADM1_PCODE'' := Str ''B1'', ''geometry'' := Geom ()),
                      (\<lambda>f. Null)(''alpha_3'' := Str ''AAA'', ''ADM1_PCODE'' := Str ''A0'', ''geometry'' := Geom ())]\<rparr>]
          \<lparr>columns = [(''alpha_3'', Object), (''ADM1_PCODE'', Object), (''geometry'', Geometry)],
           rows = [(\<lambda>f. Null)(''alpha_3'' := Str ''AAA'', ''ADM1_PCODE'' := Str ''A2'', ''geometry'' := Geom ()),
                   (\<lambda>f. Null)(''alpha_3'' := Str ''AAA'', ''ADM1_PCODE'' := Str ''A1'', ''geometry'' := Geom ())]\<rparr>
          ''AAA'' ''adm1'' ''polygon''))
       \<lparr>columns = [(''alpha_3'', Object), (''ADM1_PCODE'', Object), (''geometry'', Geometry)],
        rows = [(\<lambda>f. Null)(''alpha_3'' := Str ''AAA'', ''ADM1_PCODE'' := Str ''A2'', ''geometry'' := Geom ()),
                (\<lambda>f. Null)(''alpha_3'' := Str ''AAA'', ''ADM1_PCODE'' := Str ''A1'', ''geometry'' := Geom ())]\<rparr>
       ''AAA'' ''adm1'' ''polygon'' = Inr boundaries2
     \<and> projr (replace_country_boundaries
          [''adm1_polygon'' \<mapsto>
             \<lparr>columns = [(''alpha_3'', Object), (''ADM1_PCODE'', Object), (''geometry'', Geometry)],
              rows = [(\<lambda>f. Null)(''alpha_3'' := Str ''BBB'', ''ADM1_PCODE'' := Str ''B1'', ''geometry'' := Geom ()),
                      (\<lambda>f. Null)(''alpha_3'' := Str ''AAA'', ''ADM1_PCODE'' := Str ''A0'', ''geometry'' := Geom ())]\<rparr>]
          \<lparr>columns = [(''alpha_3'', Object), (''ADM1_PCODE'', Object), (''geometry'', Geometry)],
           rows = [(\<lambda>f. Null)(''alpha_3'' := Str ''AAA'', ''ADM1_PCODE'' := Str ''A2'', ''geometry'' := Geom ()),
                   (\<lambda>f. Null)(''alpha_3'' := Str ''AAA'', ''ADM1_PCODE'' := Str ''A1'', ''geometry'' := Geom ())]\<rparr>
          ''AAA'' ''adm1'' ''polygon'') (partition_key ''adm1'' ''polygon'') = Some p1
     \<and> boundaries2 (partition_key ''adm1'' ''polygon'') = Some p2
     \<and> sorted_by (level_pcode CHR ''1'') p1 \<and> sorted_by (level_pcode CHR ''1'') p2
     \<and> mset (records_of ''AAA'' p1)
         = mset [(\<lambda>f. Null)(''alpha_3'' := Str ''AAA'', ''ADM1_PCODE'' := Str ''A2'', ''geometry'' := Geom ()),
                 (\<lambda>f. Null)(''alpha_3'' := Str ''AAA'', ''ADM1_PCODE'' := Str ''A1'', ''geometry'' := Geom ())]
     \<and> mset (records_of ''AAA'' p2)
         = mset [(\<lambda>f. Null)(''alpha_3'' := Str ''AAA'', ''ADM1_PCODE'' := Str ''A2'', ''geometry'' := Geom ()),
                 (\<lambda>f. Null)(''alpha_3'' := Str ''AAA'', ''ADM1_PCODE'' := Str ''A1'', ''geometry'' := Geom ())]"
proof -
  let ?B = "[''adm1_polygon'' \<mapsto>
             \<lparr>columns = [(''alpha_3'', Object), (''ADM1_PCODE'', Object), (''geometry'', Geometry)],
              rows = [(\<lambda>f. Null)(''alpha_3'' := Str ''BBB'', ''ADM1_PCODE'' := Str ''B1'', ''geometry'' := Geom ()),
                      (\<lambda>f. Null)(''alpha_3'' := Str ''AAA'', ''ADM1_PCODE'' := Str ''A0'', ''geometry'' := Geom ())]\<rparr>]
            :: string \<rightharpoonup> unit layer"
  let ?new = "\<lparr>columns = [(''alpha_3'', Object), (''ADM1_PCODE'', Object), (''geometry'', Geometry)],
           rows = [(\<lambda>f. Null)(''alpha_3'' := Str ''AAA'', ''ADM1_PCODE'' := Str ''A2'', ''geometry'' := Geom ()),
                   (\<lambda>f. Null)(''alpha_3'' := Str ''AAA'', ''ADM1_PCODE'' := Str ''A1'', ''geometry'' := Geom ())]\<rparr>
            :: unit layer"
  have "\<not> isl (replace_country_boundaries ?B ?new ''AAA'' ''adm1'' ''polygon'')"
    by code_simp
  then have m1: "replace_country_boundaries ?B ?new ''AAA'' ''adm1'' ''polygon''
                 = Inr (projr (replace_country_boundaries ?B ?new ''AAA'' ''adm1'' ''polygon''))"
    by simp
  have own: "\<forall>r \<in> set (rows ?new). r ''alpha_3'' = Str ''AAA''" by simp
  have c: "last_chr ''adm1'' = Inr CHR ''1''" by code_simp
  from merge_idempotence[OF m1 own c] show ?thesis by simp
qed

text \<open>
  Claim C6. Let every record of the country's layer carry the country code. When the merge of
  the layer into a partition succeeds, the records of the partition whose country code is
  another one are the same multiset before and after the merge.
\<close>

theorem merge_frame_property:
  assumes "replace_country_boundaries boundaries new_boundaries iso3 level geom_type = Inr boundaries'"
    and "\<forall>r \<in> set (rows new_boundaries). r ''alpha_3'' = Str iso3"
  shows "\<exists>p p'. boundaries (partition_key level geom_type) = Some p
           \<and> boundaries' (partition_key level geom_type) = Some p'
           \<and> mset (records_besides iso3 p') = mset (records_besides iso3 p)"
  using assms by (rule merge_frame)

theorem merge_frame_property_witness:
  "\<exists>p p'.
     [''adm1_point'' \<mapsto>
        \<lparr>columns = [(''alpha_3'', Object), (''ADM1_PCODE'', Object), (''geometry'', Geometry)],
         rows = [(\<lambda>f. Null)(''alpha_3'' := Str ''BBB'', ''ADM1_PCODE'' := Str ''B1'', ''geometry'' := Geom ()),
                 (\<lambda>f. Null)(''alpha_3'' := Str ''AAA'', ''ADM1_PCODE'' := Str ''A0'', ''geometry'' := Geom ())]\<rparr>]
        (partition_key ''adm1'' ''point'') = Some p
     \<and> projr (replace_country_boundaries
          [''adm1_point'' \<mapsto>
             \<lparr>columns = [(''alpha_3'', Object), (''ADM1_PCODE'', Object), (''geometry'', Geometry)],
              rows = [(\<lambda>f. Null)(''alpha_3'' := Str ''BBB'', ''ADM1_PCODE'' := Str ''B1'', ''geometry'' := Geom ()),
                      (\<lambda>f. Null)(''alpha_3'' := Str ''AAA'', ''ADM1_PCODE'' := Str ''A0'', ''geometry'' := Geom ())]\<rparr>]
          \<lparr>columns = [(''alpha_3'', Object), (''ADM1_PCODE'', Object), (''geometry'', Geometry)],
           rows = [(\<lambda>f. Null)(''alpha_3'' := Str ''AAA'', ''ADM1_PCODE'' := Str ''C1'', ''geometry'' := Geom ())]\<rparr>
          ''AAA'' ''adm1'' ''point'') (partition_key ''adm1'' ''point'') = Some p'
     \<and> mset (records_besides ''AAA'' p') = mset (records_besides ''AAA'' p)"
proof -
  let ?B = "[''adm1_point'' \<mapsto>
             \<lparr>columns = [(''alpha_3'', Object), (''ADM1_PCODE'', Object), (''geometry'', Geometry)],
              rows = [(\<lambda>f. Null)(''alpha_3'' := Str ''BBB'', ''ADM1_PCODE'' := Str ''B1'', ''geometry'' := Geom ()),
                      (\<lambda>f. Null)(''alpha_3'' := Str ''AAA'', ''ADM1_PCODE'' := Str ''A0'', ''geometry'' := Geom ())]\<rparr>]
            :: string \<rightharpoonup> unit layer"
  let ?new = "\<lparr>columns = [(''alpha_3'', Object), (''ADM1_PCODE'', Object), (''geometry'', Geometry)],
           rows = [(\<lambda>f. Null)(''alpha_3'' := Str ''AAA'', ''ADM1_PCODE'' := Str ''C1'', ''geometry'' := Geom ())]\<rparr>
            :: unit layer"
  have "\<not> isl (replace_country_boundaries ?B ?new ''AAA'' ''adm1'' ''point'')"
    by code_simp
  then have m: "replace_country_boundaries ?B ?new ''AAA'' ''adm1'' ''point''
                = Inr (projr (replace_country_boundaries ?B ?new ''AAA'' ''adm1'' ''point''))"
    by simp
  have own: "\<forall>r \<in> set (rows ?new). r ''alpha_3'' = Str ''AAA''" by simp
  from merge_frame_property[OF m own] show ?thesis by simp
qed

text \<open>
  Claim C7, as amended. After every successful update by the Global Merger the partition that
  was updated is in the order of the pcode field of the level, and every other partition is
  as it was. The records of a country need not be adjacent: the order is that of the pcodes
  alone, so the records of two countries interleave when their pcodes do.
\<close>

theorem merge_invariant:
  assumes "replace_country_boundaries boundaries new_boundaries iso3 level geom_type = Inr boundaries'"
    and "last_chr level = Inr c"
  shows "(\<exists>p'. boundaries' (partition_key level geom_type) = Some p' \<and> sorted_by (level_pcode c) p')
         \<and> (\<forall>k. k \<noteq> partition_key level geom_type \<longrightarrow> boundaries' k = boundaries k)"
  using assms by (rule merge_sorted)

theorem merge_invariant_witness:
  "\<exists>p'. projr (replace_country_boundaries
          [''adm1_polygon'' \<mapsto>
             \<lparr>columns = [(''alpha_3'', Object), (''ADM1_PCODE'', Object), (''geometry'', Geometry)],
              rows = [(\<lambda>f. Null)(''alpha_3'' := Str ''BBB'', ''ADM1_PCODE'' := Str ''B1'', ''geometry'' := Geom ())]\<rparr>]
          \<lparr>columns = [(''alpha_3'', Object), (''ADM1_PCODE'', Object), (''geometry'', Geometry)],
           rows = [(\<lambda>f. Null)(''alpha_3'' := Str ''AAA'', ''ADM1_PCODE'' := Str ''C1'', ''geometry'' := Geom ()),
                   (\<lambda>f. Null)(''alpha_3'' := Str ''AAA'', ''ADM1_PCODE'' := Str ''A1'', ''geometry'' := Geom ())]\<rparr>
          ''AAA'' ''adm1'' ''polygon'') (partition_key ''adm1'' ''polygon'') = Some p'
       \<and> sorted_by (level_pcode CHR ''1'') p'"
proof -
  let ?B = "[''adm1_polygon'' \<mapsto>
             \<lparr>columns = [(''alpha_3'', Object), (''ADM1_PCODE'', Object), (''geometry'', Geometry)],
              rows = [(\<lambda>f. Null)(''alpha_3'' := Str ''BBB'', ''ADM1_PCODE'' := Str ''B1'', ''geometry'' := Geom ())]\<rparr>]
            :: string \<rightharpoonup> unit layer"
  let ?new = "\<lparr>columns = [(''alpha_3'', Object), (''ADM1_PCODE'', Object), (''geometry'', Geometry)],
           rows = [(\<lambda>f. Null)(''alpha_3'' := Str ''AAA'', ''ADM1_PCODE'' := Str ''C1'', ''geometry'' := Geom ()),
                   (\<lambda>f. Null)(''alpha_3'' := Str ''AAA'', ''ADM1_PCODE'' := Str ''A1'', ''geometry'' := Geom ())]\<rparr>
            :: unit layer"
  have "\<not> isl (replace_country_boundaries ?B ?new ''AAA'' ''adm1'' ''polygon'')"
    by code_simp
  then have m: "replace_country_boundaries ?B ?new ''AAA'' ''adm1'' ''polygon''
                = Inr (projr (replace_country_boundaries ?B ?new ''AAA'' ''adm1'' ''polygon''))"
    by simp
  have c: "last_chr ''adm1'' = Inr CHR ''1''" by code_simp
  from merge_invariant[OF m c] show ?thesis by blast
qed

theorem merge_invariant_counterexample:
  "map_option (\<lambda>p. (map (\<lambda>r. r ''alpha_3'') (rows p), sorted_by ''ADM1_PCODE'' p, country_blocks p))
     (projr (replace_country_boundaries
          [''adm1_polygon'' \<mapsto>
             \<lparr>columns = [(''alpha_3'', Object), (''ADM1_PCODE'', Object), (''geometry'', Geometry)],
              rows = [(\<lambda>f. Null)(''alpha_3'' := Str ''BBB'', ''ADM1_PCODE'' := Str ''B1'', ''geometry'' := Geom ())]\<rparr>]
          \<lparr>columns = [(''alpha_3'', Object), (''ADM1_PCODE'', Object), (''geometry'', Geometry)],
           rows = [(\<lambda>f. Null)(''alpha_3'' := Str ''AAA'', ''ADM1_PCODE'' := Str ''C1'', ''geometry'' := Geom ()),
                   (\<lambda>f. Null)(''alpha_3'' := Str ''AAA'', ''ADM1_PCODE'' := Str ''A1'', ''geometry'' := Geom ())]\<rparr>
          ''AAA'' ''adm1'' ''polygon'') ''adm1_polygon'')
   = Some ([Str ''AAA'', Str ''BBB'', Str ''AAA''], True, False :: bool)"
  by code_simp

section \<open>Properties of the Geometry Harmonizer\<close>

lemma simplify_epsilon_eq:
  assumes "level_depth level = Inr d"
  shows "simplify_epsilon level
         = Inr (if 1 \<le> d then float64 (float64 0.0075 / of_nat d) else float64 0.0075)"
proof (cases "d > 0")
  case True
  with assms show ?thesis by (simp add: simplify_epsilon_def Let_def)
next
  case False
  with assms show ?thesis by (simp add: simplify_epsilon_def Let_def)
qed

text \<open>
  Claim C9. For a level of depth \<open>d\<close> the tolerance that \<open>update_geometry\<close> passes to the
  simplification is 0.0075 divided by \<open>d\<close> when \<open>d\<close> is at least 1, and 0.0075 when \<open>d\<close> is 0;
  0.0075 is the float of that literal and the division is the division of floats.
\<close>

theorem simplification_tolerance:
  assumes "level_depth level = Inr d"
  shows "simplify_epsilon level
           = Inr (if 1 \<le> d then float64 (float64 0.0075 / of_nat d) else float64 0.0075)
         \<and> update_geometry env boundary_lyr country_adm0 level
           = (case geo_topology env boundary_lyr of
                Inl e \<Rightarrow> Inl e
              | Inr boundary_topo \<Rightarrow>
                  (case geo_toposimplify env
                          (if 1 \<le> d then float64 (float64 0.0075 / of_nat d) else float64 0.0075)
                          boundary_topo of
                     Inl e \<Rightarrow> Inl e
                   | Inr lyr \<Rightarrow>
                       (case repair_rows env (rows lyr) of
                          Inl e \<Rightarrow> Inl e
                        | Inr rs \<Rightarrow> geo_clip env \<lparr>columns = columns lyr, rows = rs\<rparr> country_adm0)))"
proof -
  note e = simplify_epsilon_eq[OF assms]
  show ?thesis
    unfolding update_geometry_def e sum.case by (rule conjI; rule refl)
qed

theorem simplification_tolerance_witness:
  "simplify_epsilon ''adm2'' = Inr (1080863910568919 / 288230376151711744)
   \<and> simplify_epsilon ''adm3'' = Inr (5764607523034235 / 2305843009213693952)
   \<and> simplify_epsilon ''adm0'' = Inr (1080863910568919 / 144115188075855872)"
proof -
  have 2: "level_depth ''adm2'' = Inr 2" by code_simp
  have 3: "level_depth ''adm3'' = Inr 3" by code_simp
  have 0: "level_depth ''adm0'' = Inr 0" by code_simp
  have a: "(if 1 \<le> (2 :: nat) then float64 (float64 0.0075 / of_nat 2) else float64 0.0075)
           = 1080863910568919 / 288230376151711744"
    by code_simp
  have b: "(if 1 \<le> (3 :: nat) then float64 (float64 0.0075 / of_nat 3) else float64 0.0075)
           = 5764607523034235 / 2305843009213693952"
    by code_simp
  have c: "(if 1 \<le> (0 :: nat) then float64 (float64 0.0075 / of_nat 0) else float64 0.0075)
           = 1080863910568919 / 144115188075855872"
    by code_simp
  note t2 = simplification_tolerance[OF 2, THEN conjunct1, unfolded a]
  note t3 = simplification_tolerance[OF 3, THEN conjunct1, unfolded b]
  note t0 = simplification_tolerance[OF 0, THEN conjunct1, unfolded c]
  show ?thesis
    by (rule conjI[OF t2 conjI[OF t3 t0]])
qed

section \<open>Properties of the Orchestrator\<close>








end
